theory Spec2Isabelle
  imports Main
begin

section \<open>Tokens and errors\<close>

text \<open>
  The front end of the compiler project: \<^verbatim>\<open>lexer.py\<close>, \<^verbatim>\<open>parser.py\<close>, \<^verbatim>\<open>semantic.py\<close> and
  \<^verbatim>\<open>flowchart.py\<close>, embedded as HOL functions. A token is the dictionary
  \<^verbatim>\<open>{'type': ..., 'value': ...}\<close>; its type is one of the group names of
  \<^verbatim>\<open>token_specification\<close>, or \<^verbatim>\<open>EOF\<close>, which only \<^verbatim>\<open>Parser.current\<close> makes up
  past the end of the list. The group \<^verbatim>\<open>INT\<close> is written \<open>INT_KW\<close>.

  Every exception the Python raises is a value of \<open>error\<close>, returned as \<open>Inl\<close>.
  \<open>OutOfFuel\<close> is not a Python exception: it is the answer of the parser model when its
  recursion budget is used up.
\<close>

datatype tok_type =
    INT_KW | MAIN | IF | ELSE | WHILE | FOR | DO | RETURN | ID | NUM | STRING | OP
  | LPAREN | RPAREN | LBRACE | RBRACE | SEMI | SKIP | MISMATCH | EOF

datatype error =
    IndexError | AttributeError | TypeError | NameError string
  | UnexpectedCharacter string nat
  | ExpectedToken tok_type tok_type "string option"
  | UnexpectedStmtToken tok_type "string option"
  | UnexpectedFactorToken tok_type "string option"
  | OutOfFuel

record token =
  ttype :: tok_type
  tvalue :: string

section \<open>Lexer\<close>











fun starts_with :: "string \<Rightarrow> string \<Rightarrow> string option" where
  "starts_with [] rest = Some rest"
| "starts_with (c # lit) [] = None"
| "starts_with (c # lit) (d # rest) = (if c = d then starts_with lit rest else None)"




























section \<open>AST nodes\<close>

text \<open>
  \<^verbatim>\<open>ASTNode\<close> has a type tag, an optional value and a list of children. The parser
  appends \<^verbatim>\<open>None\<close> for an absent clause of a \<^verbatim>\<open>for\<close> header, so a child is optional.
\<close>

datatype ASTNode =
  ASTNode (ntype: string) (nvalue: "string option") (children: "ASTNode option list")

definition add_child :: "ASTNode \<Rightarrow> ASTNode option \<Rightarrow> ASTNode" where
  "add_child node c = ASTNode (ntype node) (nvalue node) (children node @ [c])"

section \<open>Parser\<close>

text \<open>
  The parser state \<^verbatim>\<open>(self.tokens, self.pos)\<close> is represented by the unread tokens
  \<^verbatim>\<open>self.tokens[self.pos:]\<close>; every rule returns the node it built together with the
  tokens it left. \<open>cur_type\<close> and \<open>cur_value\<close> read \<^verbatim>\<open>self.current()\<close>. The mutually
  recursive methods are one function per group, indexed by the rule; the first argument
  is the recursion budget, one unit per call and per loop iteration.
\<close>

definition cur_type :: "token list \<Rightarrow> tok_type" where
  "cur_type ts = (case ts of [] \<Rightarrow> EOF | t # _ \<Rightarrow> ttype t)"

definition cur_value :: "token list \<Rightarrow> string option" where
  "cur_value ts = (case ts of [] \<Rightarrow> None | t # _ \<Rightarrow> Some (tvalue t))"

definition eat :: "tok_type \<Rightarrow> token list \<Rightarrow> error + (token \<times> token list)" where
  "eat token_type ts =
     (case ts of
        [] \<Rightarrow> Inl (ExpectedToken token_type EOF None)
      | t # rest \<Rightarrow>
          if ttype t = token_type then Inr (t, rest)
          else Inl (ExpectedToken token_type (ttype t) (Some (tvalue t))))"

definition type_spec :: "token list \<Rightarrow> error + (ASTNode \<times> token list)" where
  "type_spec ts =
     (case eat INT_KW ts of
        Inl e \<Rightarrow> Inl e
      | Inr (tok, ts1) \<Rightarrow> Inr (ASTNode ''type'' (Some (tvalue tok)) [], ts1))"

definition is_op :: "token list \<Rightarrow> string list \<Rightarrow> bool" where
  "is_op ts ops = (cur_type ts = OP \<and> cur_value ts \<in> Some ` set ops)"

datatype expr_rule = Expr | ArithExpr | ArithLoop ASTNode | Term | TermLoop ASTNode | Factor

fun parse_expr :: "nat \<Rightarrow> expr_rule \<Rightarrow> token list \<Rightarrow> error + (ASTNode \<times> token list)" where
  "parse_expr 0 r ts = Inl OutOfFuel"
| "parse_expr (Suc fuel) Expr ts =
     (case parse_expr fuel ArithExpr ts of
        Inl e \<Rightarrow> Inl e
      | Inr (node, ts1) \<Rightarrow>
          if is_op ts1 [''<'', ''>'', ''=='', ''!='', ''<='', ''>='']
          then (case eat OP ts1 of
                  Inl e \<Rightarrow> Inl e
                | Inr (op_tok, ts2) \<Rightarrow>
                    (case parse_expr fuel ArithExpr ts2 of
                       Inl e \<Rightarrow> Inl e
                     | Inr (rhs, ts3) \<Rightarrow>
                         Inr (ASTNode ''comparison'' (Some (tvalue op_tok)) [Some node, Some rhs], ts3)))
          else Inr (node, ts1))"
| "parse_expr (Suc fuel) ArithExpr ts =
     (case parse_expr fuel Term ts of
        Inl e \<Rightarrow> Inl e
      | Inr (node, ts1) \<Rightarrow> parse_expr fuel (ArithLoop node) ts1)"
| "parse_expr (Suc fuel) (ArithLoop node) ts =
     (if is_op ts [''+'', ''-'']
      then (case eat OP ts of
              Inl e \<Rightarrow> Inl e
            | Inr (op_tok, ts1) \<Rightarrow>
                (case parse_expr fuel Term ts1 of
                   Inl e \<Rightarrow> Inl e
                 | Inr (rhs, ts2) \<Rightarrow>
                     parse_expr fuel (ArithLoop (ASTNode ''arith_expr'' (Some (tvalue op_tok)) [Some node, Some rhs])) ts2))
      else Inr (node, ts))"
| "parse_expr (Suc fuel) Term ts =
     (case parse_expr fuel Factor ts of
        Inl e \<Rightarrow> Inl e
      | Inr (node, ts1) \<Rightarrow> parse_expr fuel (TermLoop node) ts1)"
| "parse_expr (Suc fuel) (TermLoop node) ts =
     (if is_op ts [''*'', ''/'', ''%'']
      then (case eat OP ts of
              Inl e \<Rightarrow> Inl e
            | Inr (op_tok, ts1) \<Rightarrow>
                (case parse_expr fuel Factor ts1 of
                   Inl e \<Rightarrow> Inl e
                 | Inr (rhs, ts2) \<Rightarrow>
                     parse_expr fuel (TermLoop (ASTNode ''term'' (Some (tvalue op_tok)) [Some node, Some rhs])) ts2))
      else Inr (node, ts))"
| "parse_expr (Suc fuel) Factor ts =
     (if cur_type ts = NUM then
        (case eat NUM ts of
           Inl e \<Rightarrow> Inl e
         | Inr (tok, ts1) \<Rightarrow> Inr (ASTNode ''num'' (Some (tvalue tok)) [], ts1))
      else if cur_type ts = ID then
        (case eat ID ts of
           Inl e \<Rightarrow> Inl e
         | Inr (tok, ts1) \<Rightarrow> Inr (ASTNode ''id'' (Some (tvalue tok)) [], ts1))
      else if cur_type ts = LPAREN then
        (case eat LPAREN ts of
           Inl e \<Rightarrow> Inl e
         | Inr (_, ts1) \<Rightarrow>
             (case parse_expr fuel Expr ts1 of
                Inl e \<Rightarrow> Inl e
              | Inr (node, ts2) \<Rightarrow>
                  (case eat RPAREN ts2 of
                     Inl e \<Rightarrow> Inl e
                   | Inr (_, ts3) \<Rightarrow> Inr (node, ts3))))
      else Inl (UnexpectedFactorToken (cur_type ts) (cur_value ts)))"

abbreviation expr :: "nat \<Rightarrow> token list \<Rightarrow> error + (ASTNode \<times> token list)" where
  "expr fuel ts \<equiv> parse_expr fuel Expr ts"

abbreviation arith_expr :: "nat \<Rightarrow> token list \<Rightarrow> error + (ASTNode \<times> token list)" where
  "arith_expr fuel ts \<equiv> parse_expr fuel ArithExpr ts"

abbreviation term_rule :: "nat \<Rightarrow> token list \<Rightarrow> error + (ASTNode \<times> token list)" where
  "term_rule fuel ts \<equiv> parse_expr fuel Term ts"

abbreviation factor :: "nat \<Rightarrow> token list \<Rightarrow> error + (ASTNode \<times> token list)" where
  "factor fuel ts \<equiv> parse_expr fuel Factor ts"

text \<open>The rules that only call down into expressions.\<close>

definition var_decl :: "nat \<Rightarrow> token list \<Rightarrow> error + (ASTNode \<times> token list)" where
  "var_decl fuel ts =
     (case type_spec ts of
        Inl e \<Rightarrow> Inl e
      | Inr (ty, ts1) \<Rightarrow>
          (case eat ID ts1 of
             Inl e \<Rightarrow> Inl e
           | Inr (id_tok, ts2) \<Rightarrow>
               (let node = ASTNode ''var_decl'' None [Some ty, Some (ASTNode ''id'' (Some (tvalue id_tok)) [])]
                in if is_op ts2 [''='']
                   then (case eat OP ts2 of
                           Inl e \<Rightarrow> Inl e
                         | Inr (_, ts3) \<Rightarrow>
                             (case expr fuel ts3 of
                                Inl e \<Rightarrow> Inl e
                              | Inr (init, ts4) \<Rightarrow>
                                  (case eat SEMI ts4 of
                                     Inl e \<Rightarrow> Inl e
                                   | Inr (_, ts5) \<Rightarrow> Inr (add_child node (Some init), ts5))))
                   else (case eat SEMI ts2 of
                           Inl e \<Rightarrow> Inl e
                         | Inr (_, ts3) \<Rightarrow> Inr (node, ts3)))))"

definition assign_expr :: "nat \<Rightarrow> token list \<Rightarrow> error + (ASTNode \<times> token list)" where
  "assign_expr fuel ts =
     (case eat ID ts of
        Inl e \<Rightarrow> Inl e
      | Inr (id_tok, ts1) \<Rightarrow>
          (case eat OP ts1 of
             Inl e \<Rightarrow> Inl e
           | Inr (_, ts2) \<Rightarrow>
               (case expr fuel ts2 of
                  Inl e \<Rightarrow> Inl e
                | Inr (rhs, ts3) \<Rightarrow>
                    Inr (ASTNode ''assign'' None
                           [Some (ASTNode ''id'' (Some (tvalue id_tok)) []), Some rhs], ts3))))"

definition assign_stmt :: "nat \<Rightarrow> token list \<Rightarrow> error + (ASTNode \<times> token list)" where
  "assign_stmt fuel ts =
     (case assign_expr fuel ts of
        Inl e \<Rightarrow> Inl e
      | Inr (node, ts1) \<Rightarrow>
          (case eat SEMI ts1 of
             Inl e \<Rightarrow> Inl e
           | Inr (_, ts2) \<Rightarrow> Inr (node, ts2)))"

definition return_stmt :: "nat \<Rightarrow> token list \<Rightarrow> error + (ASTNode \<times> token list)" where
  "return_stmt fuel ts =
     (case eat RETURN ts of
        Inl e \<Rightarrow> Inl e
      | Inr (_, ts1) \<Rightarrow>
          (case expr fuel ts1 of
             Inl e \<Rightarrow> Inl e
           | Inr (ex, ts2) \<Rightarrow>
               (case eat SEMI ts2 of
                  Inl e \<Rightarrow> Inl e
                | Inr (_, ts3) \<Rightarrow> Inr (ASTNode ''return_stmt'' None [Some ex], ts3))))"

text \<open>
  The generic statement of \<^verbatim>\<open>Parser.stmt\<close>: the loop collecting token texts up to the
  next \<^verbatim>\<open>SEMI\<close> (or the end), \<^verbatim>\<open>" ".join\<close> and \<^verbatim>\<open>str.strip\<close>.
\<close>

fun gather :: "token list \<Rightarrow> string list \<Rightarrow> string list \<times> token list" where
  "gather [] text_tokens = (text_tokens, [])"
| "gather (t # ts) text_tokens =
     (if ttype t \<noteq> SEMI \<and> ttype t \<noteq> EOF then gather ts (text_tokens @ [tvalue t])
      else (text_tokens, t # ts))"

fun join :: "string \<Rightarrow> string list \<Rightarrow> string" where
  "join sep [] = []"
| "join sep [x] = x"
| "join sep (x # y # xs) = x @ sep @ join sep (y # xs)"

definition py_isspace :: "char \<Rightarrow> bool" where
  "py_isspace c =
     ((of_char c :: nat) \<in> {0x09, 0x0A, 0x0B, 0x0C, 0x0D, 0x1C, 0x1D, 0x1E, 0x1F, 0x20, 0x85, 0xA0})"

definition strip :: "string \<Rightarrow> string" where
  "strip s = rev (dropWhile py_isspace (rev (dropWhile py_isspace s)))"

definition generic_stmt :: "token list \<Rightarrow> error + (ASTNode \<times> token list)" where
  "generic_stmt ts =
     (case gather ts [] of (text_tokens, ts1) \<Rightarrow>
        if cur_type ts1 = SEMI
        then (case eat SEMI ts1 of
                Inl e \<Rightarrow> Inl e
              | Inr (semi, ts2) \<Rightarrow>
                  Inr (ASTNode ''stmt'' (Some (strip (join '' '' (text_tokens @ [tvalue semi])))) [], ts2))
        else Inr (ASTNode ''stmt'' (Some (strip (join '' '' text_tokens))) [], ts1))"

text \<open>The three clauses of a \<^verbatim>\<open>for\<close> statement, up to the closing parenthesis.\<close>

definition for_header :: "nat \<Rightarrow> token list \<Rightarrow> error + (ASTNode \<times> token list)" where
  "for_header fuel ts =
     (case eat FOR ts of
        Inl e \<Rightarrow> Inl e
      | Inr (_, ts1) \<Rightarrow>
     (case eat LPAREN ts1 of
        Inl e \<Rightarrow> Inl e
      | Inr (_, ts2) \<Rightarrow>
     (case (if cur_type ts2 = INT_KW then map_sum id (map_prod Some id) (var_decl fuel ts2)
            else if cur_type ts2 = ID then map_sum id (map_prod Some id) (assign_stmt fuel ts2)
            else map_sum id (\<lambda>(_, r). (None, r)) (eat SEMI ts2)) of
        Inl e \<Rightarrow> Inl e
      | Inr (init_node, ts3) \<Rightarrow>
     (case (if cur_type ts3 \<noteq> SEMI
            then (case expr fuel ts3 of
                    Inl e \<Rightarrow> Inl e
                  | Inr (c, r) \<Rightarrow> map_sum id (\<lambda>(_, r'). (Some c, r')) (eat SEMI r))
            else map_sum id (\<lambda>(_, r). (None, r)) (eat SEMI ts3)) of
        Inl e \<Rightarrow> Inl e
      | Inr (cond_node, ts4) \<Rightarrow>
     (case (if cur_type ts4 = ID then map_sum id (map_prod Some id) (assign_expr fuel ts4)
            else Inr (None, ts4)) of
        Inl e \<Rightarrow> Inl e
      | Inr (upd_node, ts5) \<Rightarrow>
     (case eat RPAREN ts5 of
        Inl e \<Rightarrow> Inl e
      | Inr (_, ts6) \<Rightarrow>
          Inr (ASTNode ''for'' None [init_node, cond_node, upd_node], ts6)))))))"

datatype stmt_rule =
  CompoundStmt | StmtLoop ASTNode | Stmt | IfStmt | WhileStmt | ForStmt | DoWhileStmt

fun parse_stmt :: "nat \<Rightarrow> stmt_rule \<Rightarrow> token list \<Rightarrow> error + (ASTNode \<times> token list)" where
  "parse_stmt 0 r ts = Inl OutOfFuel"
| "parse_stmt (Suc fuel) CompoundStmt ts =
     (case eat LBRACE ts of
        Inl e \<Rightarrow> Inl e
      | Inr (_, ts1) \<Rightarrow>
          (case parse_stmt fuel (StmtLoop (ASTNode ''compound_stmt'' None [])) ts1 of
             Inl e \<Rightarrow> Inl e
           | Inr (node, ts2) \<Rightarrow>
               (case eat RBRACE ts2 of
                  Inl e \<Rightarrow> Inl e
                | Inr (_, ts3) \<Rightarrow> Inr (node, ts3))))"
| "parse_stmt (Suc fuel) (StmtLoop node) ts =
     (if cur_type ts \<in> {INT_KW, ID, IF, RETURN, WHILE, FOR, DO}
      then (case parse_stmt fuel Stmt ts of
              Inl e \<Rightarrow> Inl e
            | Inr (child, ts1) \<Rightarrow> parse_stmt fuel (StmtLoop (add_child node (Some child))) ts1)
      else Inr (node, ts))"
| "parse_stmt (Suc fuel) Stmt ts =
     (if cur_type ts = INT_KW then var_decl fuel ts
      else if cur_type ts = ID then
        (if is_op (tl ts) [''=''] then assign_stmt fuel ts else generic_stmt ts)
      else if cur_type ts = IF then parse_stmt fuel IfStmt ts
      else if cur_type ts = RETURN then return_stmt fuel ts
      else if cur_type ts = WHILE then parse_stmt fuel WhileStmt ts
      else if cur_type ts = FOR then parse_stmt fuel ForStmt ts
      else if cur_type ts = DO then parse_stmt fuel DoWhileStmt ts
      else Inl (UnexpectedStmtToken (cur_type ts) (cur_value ts)))"
| "parse_stmt (Suc fuel) IfStmt ts =
     (case eat IF ts of
        Inl e \<Rightarrow> Inl e
      | Inr (_, ts1) \<Rightarrow>
     (case eat LPAREN ts1 of
        Inl e \<Rightarrow> Inl e
      | Inr (_, ts2) \<Rightarrow>
     (case expr fuel ts2 of
        Inl e \<Rightarrow> Inl e
      | Inr (cond, ts3) \<Rightarrow>
     (case eat RPAREN ts3 of
        Inl e \<Rightarrow> Inl e
      | Inr (_, ts4) \<Rightarrow>
     (case (if cur_type ts4 = LBRACE then parse_stmt fuel CompoundStmt ts4 else parse_stmt fuel Stmt ts4) of
        Inl e \<Rightarrow> Inl e
      | Inr (then_node, ts5) \<Rightarrow>
          if cur_type ts5 = ELSE
          then (case eat ELSE ts5 of
                  Inl e \<Rightarrow> Inl e
                | Inr (_, ts6) \<Rightarrow>
                    (case (if cur_type ts6 = LBRACE then parse_stmt fuel CompoundStmt ts6 else parse_stmt fuel Stmt ts6) of
                       Inl e \<Rightarrow> Inl e
                     | Inr (else_node, ts7) \<Rightarrow>
                         Inr (ASTNode ''if_stmt'' None [Some cond, Some then_node, Some else_node], ts7)))
          else Inr (ASTNode ''if_stmt'' None [Some cond, Some then_node], ts5))))))"
| "parse_stmt (Suc fuel) WhileStmt ts =
     (case eat WHILE ts of
        Inl e \<Rightarrow> Inl e
      | Inr (_, ts1) \<Rightarrow>
     (case eat LPAREN ts1 of
        Inl e \<Rightarrow> Inl e
      | Inr (_, ts2) \<Rightarrow>
     (case expr fuel ts2 of
        Inl e \<Rightarrow> Inl e
      | Inr (cond, ts3) \<Rightarrow>
     (case eat RPAREN ts3 of
        Inl e \<Rightarrow> Inl e
      | Inr (_, ts4) \<Rightarrow>
     (case (if cur_type ts4 = LBRACE then parse_stmt fuel CompoundStmt ts4 else parse_stmt fuel Stmt ts4) of
        Inl e \<Rightarrow> Inl e
      | Inr (body, ts5) \<Rightarrow> Inr (ASTNode ''while'' None [Some cond, Some body], ts5))))))"
| "parse_stmt (Suc fuel) ForStmt ts =
     (case for_header fuel ts of
        Inl e \<Rightarrow> Inl e
      | Inr (node, ts1) \<Rightarrow>
          (case (if cur_type ts1 = LBRACE then parse_stmt fuel CompoundStmt ts1 else parse_stmt fuel Stmt ts1) of
             Inl e \<Rightarrow> Inl e
           | Inr (body, ts2) \<Rightarrow> Inr (add_child node (Some body), ts2)))"
| "parse_stmt (Suc fuel) DoWhileStmt ts =
     (case eat DO ts of
        Inl e \<Rightarrow> Inl e
      | Inr (_, ts1) \<Rightarrow>
     (case (if cur_type ts1 = LBRACE then parse_stmt fuel CompoundStmt ts1 else parse_stmt fuel Stmt ts1) of
        Inl e \<Rightarrow> Inl e
      | Inr (body, ts2) \<Rightarrow>
     (case eat WHILE ts2 of
        Inl e \<Rightarrow> Inl e
      | Inr (_, ts3) \<Rightarrow>
     (case eat LPAREN ts3 of
        Inl e \<Rightarrow> Inl e
      | Inr (_, ts4) \<Rightarrow>
     (case expr fuel ts4 of
        Inl e \<Rightarrow> Inl e
      | Inr (cond, ts5) \<Rightarrow>
     (case eat RPAREN ts5 of
        Inl e \<Rightarrow> Inl e
      | Inr (_, ts6) \<Rightarrow>
     (case eat SEMI ts6 of
        Inl e \<Rightarrow> Inl e
      | Inr (_, ts7) \<Rightarrow> Inr (ASTNode ''do_while'' None [Some body, Some cond], ts7))))))))"

abbreviation compound_stmt :: "nat \<Rightarrow> token list \<Rightarrow> error + (ASTNode \<times> token list)" where
  "compound_stmt fuel ts \<equiv> parse_stmt fuel CompoundStmt ts"

abbreviation stmt :: "nat \<Rightarrow> token list \<Rightarrow> error + (ASTNode \<times> token list)" where
  "stmt fuel ts \<equiv> parse_stmt fuel Stmt ts"

definition function_rule :: "nat \<Rightarrow> token list \<Rightarrow> error + (ASTNode \<times> token list)" where
  "function_rule fuel ts =
     (case type_spec ts of
        Inl e \<Rightarrow> Inl e
      | Inr (ty, ts1) \<Rightarrow>
     (case eat MAIN ts1 of
        Inl e \<Rightarrow> Inl e
      | Inr (main_tok, ts2) \<Rightarrow>
     (case eat LPAREN ts2 of
        Inl e \<Rightarrow> Inl e
      | Inr (_, ts3) \<Rightarrow>
     (case eat RPAREN ts3 of
        Inl e \<Rightarrow> Inl e
      | Inr (_, ts4) \<Rightarrow>
     (case compound_stmt fuel ts4 of
        Inl e \<Rightarrow> Inl e
      | Inr (body, ts5) \<Rightarrow>
          Inr (ASTNode ''function'' None
                 [Some ty, Some (ASTNode ''main'' (Some (tvalue main_tok)) []), Some body], ts5))))))"

definition program :: "nat \<Rightarrow> token list \<Rightarrow> error + (ASTNode \<times> token list)" where
  "program fuel ts =
     (case function_rule fuel ts of
        Inl e \<Rightarrow> Inl e
      | Inr (f, ts1) \<Rightarrow> Inr (ASTNode ''program'' None [Some f], ts1))"

definition parse :: "nat \<Rightarrow> token list \<Rightarrow> error + ASTNode" where
  "parse fuel ts = map_sum id fst (program fuel ts)"

section \<open>Semantic analyzer\<close>

text \<open>
  \<^verbatim>\<open>node.children[i]\<close> raises \<^verbatim>\<open>IndexError\<close> out of range, and using a \<^verbatim>\<open>None\<close>
  child as a node raises \<^verbatim>\<open>AttributeError\<close>. \<open>str\<close> is the text an f-string prints
  for a value that may be \<^verbatim>\<open>None\<close>.
\<close>

definition py_index :: "'a list \<Rightarrow> nat \<Rightarrow> error + 'a" where
  "py_index xs i = (if i < length xs then Inr (xs ! i) else Inl IndexError)"

definition get_child :: "ASTNode option list \<Rightarrow> nat \<Rightarrow> error + ASTNode" where
  "get_child cs i =
     (case py_index cs i of
        Inl e \<Rightarrow> Inl e
      | Inr None \<Rightarrow> Inl AttributeError
      | Inr (Some c) \<Rightarrow> Inr c)"

lemma size_nth_child:
  "i < length cs \<Longrightarrow> cs ! i = Some c \<Longrightarrow> size c < Suc (size_list (size_option size) cs)"
proof (induction cs arbitrary: i)
  case Nil
  then show ?case by simp
next
  case (Cons a cs)
  show ?case
  proof (cases i)
    case 0
    with Cons.prems show ?thesis by simp
  next
    case (Suc j)
    with Cons.prems Cons.IH [of j] show ?thesis by simp
  qed
qed

lemma size_py_index [termination_simp]:
  "py_index cs i = Inr (Some c) \<Longrightarrow> size c < Suc (size_list (size_option size) cs)"
  by (auto simp: py_index_def size_nth_child split: if_splits)

lemma size_get_child [termination_simp]:
  "get_child cs i = Inr c \<Longrightarrow> size c < Suc (size_list (size_option size) cs)"
  by (auto simp: get_child_def py_index_def size_nth_child split: if_splits option.splits)

definition str :: "string option \<Rightarrow> string" where
  "str v = (case v of None \<Rightarrow> ''None'' | Some s \<Rightarrow> s)"

text \<open>
  The analyzer object: the set of declared names and the list of messages. The dispatch
  \<^verbatim>\<open>getattr(self, 'visit_' + node.type, self.generic_visit)\<close> is the chain of comparisons
  of the node type with the names of the visitor methods; \<^verbatim>\<open>visit_while\<close> and
  \<^verbatim>\<open>visit_do_while\<close> have the same body.
\<close>

record astate =
  symbols :: "string option set"
  errors :: "string list"

definition already_declared :: "string option \<Rightarrow> string" where
  "already_declared var_name =
     ''Semantic Error: Variable '' @ [CHR 0x27] @ str var_name @ [CHR 0x27] @ '' already declared''"

definition used_before_declaration :: "string option \<Rightarrow> string" where
  "used_before_declaration var_name =
     ''Semantic Error: Variable '' @ [CHR 0x27] @ str var_name @ [CHR 0x27] @ '' used before declaration''"

definition declare_name :: "string option \<Rightarrow> astate \<Rightarrow> astate" where
  "declare_name var_name s =
     (if var_name \<in> symbols s then s\<lparr>errors := errors s @ [already_declared var_name]\<rparr>
      else s\<lparr>symbols := insert var_name (symbols s)\<rparr>)"

definition use_name :: "string option \<Rightarrow> astate \<Rightarrow> astate" where
  "use_name var_name s =
     (if var_name \<notin> symbols s then s\<lparr>errors := errors s @ [used_before_declaration var_name]\<rparr>
      else s)"

fun analyze :: "ASTNode \<Rightarrow> astate \<Rightarrow> error + astate"
and generic_visit :: "ASTNode option list \<Rightarrow> astate \<Rightarrow> error + astate" where
  "analyze (ASTNode t v cs) s =
     (if t = ''var_decl'' then
        (case get_child cs 1 of
           Inl e \<Rightarrow> Inl e
         | Inr id_node \<Rightarrow>
             (let s1 = declare_name (nvalue id_node) s
              in if length cs = 3
                 then (case get_child cs 2 of Inl e \<Rightarrow> Inl e | Inr init \<Rightarrow> analyze init s1)
                 else Inr s1))
      else if t = ''assign'' then
        (case get_child cs 0 of
           Inl e \<Rightarrow> Inl e
         | Inr id_node \<Rightarrow>
             (case get_child cs 1 of
                Inl e \<Rightarrow> Inl e
              | Inr rhs \<Rightarrow> analyze rhs (use_name (nvalue id_node) s)))
      else if t = ''id'' then Inr (use_name v s)
      else if t = ''if_stmt'' then
        (case get_child cs 0 of Inl e \<Rightarrow> Inl e | Inr c0 \<Rightarrow>
        (case analyze c0 s of Inl e \<Rightarrow> Inl e | Inr s1 \<Rightarrow>
        (case get_child cs 1 of Inl e \<Rightarrow> Inl e | Inr c1 \<Rightarrow>
        (case analyze c1 s1 of Inl e \<Rightarrow> Inl e | Inr s2 \<Rightarrow>
           if length cs = 3
           then (case get_child cs 2 of Inl e \<Rightarrow> Inl e | Inr c2 \<Rightarrow> analyze c2 s2)
           else Inr s2))))
      else if t = ''while'' \<or> t = ''do_while'' then
        (case get_child cs 0 of Inl e \<Rightarrow> Inl e | Inr c0 \<Rightarrow>
        (case analyze c0 s of Inl e \<Rightarrow> Inl e | Inr s1 \<Rightarrow>
        (case get_child cs 1 of Inl e \<Rightarrow> Inl e | Inr c1 \<Rightarrow> analyze c1 s1)))
      else if t = ''for'' then
        (case py_index cs 0 of Inl e \<Rightarrow> Inl e | Inr c0 \<Rightarrow>
        (case (case c0 of None \<Rightarrow> Inr s | Some n0 \<Rightarrow> analyze n0 s) of Inl e \<Rightarrow> Inl e | Inr s1 \<Rightarrow>
        (case py_index cs 1 of Inl e \<Rightarrow> Inl e | Inr c1 \<Rightarrow>
        (case (case c1 of None \<Rightarrow> Inr s1 | Some n1 \<Rightarrow> analyze n1 s1) of Inl e \<Rightarrow> Inl e | Inr s2 \<Rightarrow>
        (case py_index cs 2 of Inl e \<Rightarrow> Inl e | Inr c2 \<Rightarrow>
        (case (case c2 of None \<Rightarrow> Inr s2 | Some n2 \<Rightarrow> analyze n2 s2) of Inl e \<Rightarrow> Inl e | Inr s3 \<Rightarrow>
        (case get_child cs 3 of Inl e \<Rightarrow> Inl e | Inr c3 \<Rightarrow> analyze c3 s3)))))))
      else if t = ''return_stmt'' then
        (case get_child cs 0 of Inl e \<Rightarrow> Inl e | Inr c0 \<Rightarrow> analyze c0 s)
      else generic_visit cs s)"
| "generic_visit [] s = Inr s"
| "generic_visit (None # cs) s = generic_visit cs s"
| "generic_visit (Some child # cs) s =
     (case analyze child s of Inl e \<Rightarrow> Inl e | Inr s1 \<Rightarrow> generic_visit cs s1)"

definition run_analyzer :: "ASTNode \<Rightarrow> error + string list" where
  "run_analyzer ast = map_sum id errors (analyze ast \<lparr>symbols = {}, errors = []\<rparr>)"

subsection \<open>The declarations and uses of a tree\<close>

text \<open>
  The visitor methods touch the state of the analyzer at three places only: a
  \<^verbatim>\<open>var_decl\<close> node declares the name of its second child, an \<^verbatim>\<open>assign\<close> node
  and an \<^verbatim>\<open>id\<close> node use a name. \<open>events\<close> lists these declarations and uses in the
  order in which \<^verbatim>\<open>analyze\<close> meets them, with the same children read in the same
  order and the same exceptions; it carries no state. \<open>follows\<close> replays such a list
  on a state of the analyzer.
\<close>

datatype event = Declare "string option" | Use "string option"

definition record_event :: "event \<Rightarrow> astate \<Rightarrow> astate" where
  "record_event ev s = (case ev of Declare x \<Rightarrow> declare_name x s | Use x \<Rightarrow> use_name x s)"

definition then_events :: "error + event list \<Rightarrow> error + event list \<Rightarrow> error + event list" where
  "then_events a b =
     (case a of Inl e \<Rightarrow> Inl e
      | Inr xs \<Rightarrow> (case b of Inl e \<Rightarrow> Inl e | Inr ys \<Rightarrow> Inr (xs @ ys)))"

fun events :: "ASTNode \<Rightarrow> error + event list"
and events_children :: "ASTNode option list \<Rightarrow> error + event list" where
  "events (ASTNode t v cs) =
     (if t = ''var_decl'' then
        (case get_child cs 1 of
           Inl e \<Rightarrow> Inl e
         | Inr id_node \<Rightarrow>
             then_events (Inr [Declare (nvalue id_node)])
               (if length cs = 3
                then (case get_child cs 2 of Inl e \<Rightarrow> Inl e | Inr init \<Rightarrow> events init)
                else Inr []))
      else if t = ''assign'' then
        (case get_child cs 0 of
           Inl e \<Rightarrow> Inl e
         | Inr id_node \<Rightarrow>
             (case get_child cs 1 of
                Inl e \<Rightarrow> Inl e
              | Inr rhs \<Rightarrow> then_events (Inr [Use (nvalue id_node)]) (events rhs)))
      else if t = ''id'' then Inr [Use v]
      else if t = ''if_stmt'' then
        (case get_child cs 0 of Inl e \<Rightarrow> Inl e | Inr c0 \<Rightarrow>
         then_events (events c0)
        (case get_child cs 1 of Inl e \<Rightarrow> Inl e | Inr c1 \<Rightarrow>
         then_events (events c1)
           (if length cs = 3
            then (case get_child cs 2 of Inl e \<Rightarrow> Inl e | Inr c2 \<Rightarrow> events c2)
            else Inr [])))
      else if t = ''while'' \<or> t = ''do_while'' then
        (case get_child cs 0 of Inl e \<Rightarrow> Inl e | Inr c0 \<Rightarrow>
         then_events (events c0)
        (case get_child cs 1 of Inl e \<Rightarrow> Inl e | Inr c1 \<Rightarrow> events c1))
      else if t = ''for'' then
        (case py_index cs 0 of Inl e \<Rightarrow> Inl e | Inr c0 \<Rightarrow>
         then_events (case c0 of None \<Rightarrow> Inr [] | Some n0 \<Rightarrow> events n0)
        (case py_index cs 1 of Inl e \<Rightarrow> Inl e | Inr c1 \<Rightarrow>
         then_events (case c1 of None \<Rightarrow> Inr [] | Some n1 \<Rightarrow> events n1)
        (case py_index cs 2 of Inl e \<Rightarrow> Inl e | Inr c2 \<Rightarrow>
         then_events (case c2 of None \<Rightarrow> Inr [] | Some n2 \<Rightarrow> events n2)
        (case get_child cs 3 of Inl e \<Rightarrow> Inl e | Inr c3 \<Rightarrow> events c3))))
      else if t = ''return_stmt'' then
        (case get_child cs 0 of Inl e \<Rightarrow> Inl e | Inr c0 \<Rightarrow> events c0)
      else events_children cs)"
| "events_children [] = Inr []"
| "events_children (None # cs) = events_children cs"
| "events_children (Some child # cs) = then_events (events child) (events_children cs)"

definition follows :: "error + event list \<Rightarrow> astate \<Rightarrow> error + astate" where
  "follows r s = (case r of Inl e \<Rightarrow> Inl e | Inr es \<Rightarrow> Inr (fold record_event es s))"

text \<open>
  The names a list of events declares, and the lists without a semantic violation,
  starting from the set \<open>S\<close> of declared names: every declaration is of a name that
  is not declared yet and every use is of a name that is declared.
\<close>

fun declared :: "event list \<Rightarrow> string option set" where
  "declared [] = {}"
| "declared (Declare x # es) = insert x (declared es)"
| "declared (Use x # es) = declared es"

fun no_violation :: "string option set \<Rightarrow> event list \<Rightarrow> bool" where
  "no_violation S [] = True"
| "no_violation S (Declare x # es) = (x \<notin> S \<and> no_violation (insert x S) es)"
| "no_violation S (Use x # es) = (x \<in> S \<and> no_violation S es)"

section \<open>Flowchart generator\<close>

text \<open>
  The node identifier \<^verbatim>\<open>'node<N>'\<close> is represented by the number \<open>N\<close>. The Graphviz
  object \<^verbatim>\<open>self.dot\<close> is the list of the nodes and the list of the edges it was given,
  in order. \<^verbatim>\<open>Digraph.edge\<close> quotes the name of the tail with a string method, so a tail
  that is \<^verbatim>\<open>None\<close> raises \<^verbatim>\<open>AttributeError\<close>; the model of \<open>dot_edge\<close> takes an
  optional tail for that reason.
\<close>

datatype shape = oval | box | diamond | point

type_synonym node_id = nat
type_synonym gnode = "node_id \<times> string option \<times> shape"
type_synonym gedge = "node_id \<times> node_id \<times> string option"

record fstate =
  node_count :: nat
  last_node :: "node_id option"
  merge_stack :: "node_id list"
  nodes :: "gnode list"
  edges :: "gedge list"

definition new_node_id :: "fstate \<Rightarrow> node_id \<times> fstate" where
  "new_node_id s = (node_count s + 1, s\<lparr>node_count := node_count s + 1\<rparr>)"

definition dot_node :: "node_id \<Rightarrow> string option \<Rightarrow> shape \<Rightarrow> fstate \<Rightarrow> fstate" where
  "dot_node name label shp s = s\<lparr>nodes := nodes s @ [(name, label, shp)]\<rparr>"

definition dot_edge :: "node_id option \<Rightarrow> node_id \<Rightarrow> string option \<Rightarrow> fstate \<Rightarrow> error + fstate" where
  "dot_edge tail_name head_name label s =
     (case tail_name of
        None \<Rightarrow> Inl AttributeError
      | Some t \<Rightarrow> Inr (s\<lparr>edges := edges s @ [(t, head_name, label)]\<rparr>))"

definition edge_from_last :: "node_id \<Rightarrow> fstate \<Rightarrow> error + fstate" where
  "edge_from_last head_name s =
     (case last_node s of
        None \<Rightarrow> Inr s
      | Some l \<Rightarrow> dot_edge (Some l) head_name None s)"

definition make_invisible_merge :: "fstate \<Rightarrow> node_id \<times> fstate" where
  "make_invisible_merge s =
     (case new_node_id s of (merge_id, s1) \<Rightarrow> (merge_id, dot_node merge_id (Some '''') point s1))"

fun expr_to_str :: "ASTNode \<Rightarrow> error + string option" where
  "expr_to_str (ASTNode t v cs) =
     (if t = ''num'' then Inr v
      else if t = ''id'' then Inr v
      else if t \<in> {''comparison'', ''arith_expr'', ''term''} then
        (case py_index cs 0 of Inl e \<Rightarrow> Inl e | Inr c0 \<Rightarrow>
        (case (case c0 of None \<Rightarrow> Inr (Some '''') | Some n0 \<Rightarrow> expr_to_str n0) of
           Inl e \<Rightarrow> Inl e | Inr left \<Rightarrow>
        (case py_index cs 1 of Inl e \<Rightarrow> Inl e | Inr c1 \<Rightarrow>
        (case (case c1 of None \<Rightarrow> Inr (Some '''') | Some n1 \<Rightarrow> expr_to_str n1) of
           Inl e \<Rightarrow> Inl e | Inr right \<Rightarrow>
             Inr (Some (str left @ '' '' @ str v @ '' '' @ str right))))))
      else Inr (Some t))"

definition expr_to_str_opt :: "ASTNode option \<Rightarrow> error + string option" where
  "expr_to_str_opt node = (case node of None \<Rightarrow> Inr (Some '''') | Some n \<Rightarrow> expr_to_str n)"

definition child_expr_str :: "ASTNode option list \<Rightarrow> nat \<Rightarrow> error + string option" where
  "child_expr_str cs i = (case py_index cs i of Inl e \<Rightarrow> Inl e | Inr c \<Rightarrow> expr_to_str_opt c)"

definition child_value :: "ASTNode option list \<Rightarrow> nat \<Rightarrow> error + string option" where
  "child_value cs i = (case get_child cs i of Inl e \<Rightarrow> Inl e | Inr c \<Rightarrow> Inr (nvalue c))"

definition py_join :: "string \<Rightarrow> string option list \<Rightarrow> error + string" where
  "py_join sep parts = (if None \<in> set parts then Inl TypeError else Inr (join sep (map the parts)))"

fun formatter :: "ASTNode \<Rightarrow> error + string option" where
  "formatter (ASTNode t v cs) =
     (if t = ''var_decl'' then
        (case child_value cs 0 of Inl e \<Rightarrow> Inl e | Inr var_type \<Rightarrow>
        (case child_value cs 1 of Inl e \<Rightarrow> Inl e | Inr var_name \<Rightarrow>
           if length cs = 3
           then (case child_expr_str cs 2 of Inl e \<Rightarrow> Inl e | Inr expr_str \<Rightarrow>
                   Inr (Some (str var_type @ '' '' @ str var_name @ '' = '' @ str expr_str)))
           else Inr (Some (str var_type @ '' '' @ str var_name))))
      else if t = ''assign'' then
        (case child_value cs 0 of Inl e \<Rightarrow> Inl e | Inr var_name \<Rightarrow>
        (case child_expr_str cs 1 of Inl e \<Rightarrow> Inl e | Inr expr_str \<Rightarrow>
           Inr (Some (str var_name @ '' = '' @ str expr_str))))
      else if t = ''return_stmt'' then
        (case child_expr_str cs 0 of Inl e \<Rightarrow> Inl e | Inr expr_str \<Rightarrow>
           Inr (Some (''return '' @ str expr_str)))
      else if t = ''stmt'' then Inr v
      else if t = ''if_stmt'' then
        (case child_expr_str cs 0 of Inl e \<Rightarrow> Inl e | Inr cond \<Rightarrow>
           Inr (Some (''if ('' @ str cond @ '')'')))
      else if t = ''while'' then
        (case child_expr_str cs 0 of Inl e \<Rightarrow> Inl e | Inr cond \<Rightarrow>
           Inr (Some (''while ('' @ str cond @ '')'')))
      else if t = ''for'' then
        (case py_index cs 0 of Inl e \<Rightarrow> Inl e | Inr init \<Rightarrow>
        (case py_index cs 1 of Inl e \<Rightarrow> Inl e | Inr cond \<Rightarrow>
        (case py_index cs 2 of Inl e \<Rightarrow> Inl e | Inr upd \<Rightarrow>
        (case (case init of None \<Rightarrow> Inr (Some '''') | Some n \<Rightarrow> formatter n) of
           Inl e \<Rightarrow> Inl e | Inr p0 \<Rightarrow>
        (case (case cond of None \<Rightarrow> Inr (Some '''') | Some n \<Rightarrow> expr_to_str n) of
           Inl e \<Rightarrow> Inl e | Inr p1 \<Rightarrow>
        (case (case upd of None \<Rightarrow> Inr (Some '''') | Some n \<Rightarrow> formatter n) of
           Inl e \<Rightarrow> Inl e | Inr p2 \<Rightarrow>
        (case py_join ''; '' [p0, p1, p2] of Inl e \<Rightarrow> Inl e | Inr joined \<Rightarrow>
           Inr (Some (''for ('' @ joined @ '')'')))))))))
      else if t = ''do_while'' then Inr (Some (''do '' @ [CHR 0xE2, CHR 0x80, CHR 0xA6] @ '' while''))
      else Inr (Some t))"

text \<open>
  The branches of \<^verbatim>\<open>_process_node\<close>. The parts of a branch before and after the walk of
  a subtree are definitions of their own. The last statement of the branch without
  \<^verbatim>\<open>else\<close> reads the name \<^verbatim>\<open>mergerId\<close>, which is bound nowhere.
\<close>

definition process_box :: "ASTNode \<Rightarrow> fstate \<Rightarrow> error + fstate" where
  "process_box node s =
     (case new_node_id s of (box_id, s1) \<Rightarrow>
        (case formatter node of Inl e \<Rightarrow> Inl e | Inr label \<Rightarrow>
        (case edge_from_last box_id (dot_node box_id label box s1) of Inl e \<Rightarrow> Inl e | Inr s2 \<Rightarrow>
           Inr (s2\<lparr>last_node := Some box_id\<rparr>))))"

definition if_open :: "ASTNode \<Rightarrow> fstate \<Rightarrow> error + (node_id \<times> nat \<times> fstate)" where
  "if_open node s =
     (case new_node_id s of (decision_id, s1) \<Rightarrow>
        (case formatter node of Inl e \<Rightarrow> Inl e | Inr label \<Rightarrow>
        (case edge_from_last decision_id (dot_node decision_id label diamond s1) of
           Inl e \<Rightarrow> Inl e
         | Inr s2 \<Rightarrow> Inr (decision_id, node_count s2, s2\<lparr>last_node := Some decision_id\<rparr>))))"

definition if_else_close ::
  "node_id \<Rightarrow> node_id option \<Rightarrow> node_id \<Rightarrow> node_id option \<Rightarrow> node_id \<Rightarrow> fstate \<Rightarrow> error + fstate" where
  "if_else_close decision_id then_end then_entry else_end else_entry s =
     (case make_invisible_merge s of (merge_id, s1) \<Rightarrow>
        (case dot_edge then_end merge_id None (s1\<lparr>merge_stack := merge_stack s1 @ [merge_id]\<rparr>) of
           Inl e \<Rightarrow> Inl e | Inr s2 \<Rightarrow>
        (case dot_edge else_end merge_id None s2 of Inl e \<Rightarrow> Inl e | Inr s3 \<Rightarrow>
        (case dot_edge (Some decision_id) then_entry (Some ''true'') s3 of Inl e \<Rightarrow> Inl e | Inr s4 \<Rightarrow>
        (case dot_edge (Some decision_id) else_entry (Some ''false'') s4 of Inl e \<Rightarrow> Inl e | Inr s5 \<Rightarrow>
           Inr (s5\<lparr>last_node := Some merge_id\<rparr>))))))"

definition if_no_else_close :: "node_id \<Rightarrow> node_id option \<Rightarrow> node_id \<Rightarrow> fstate \<Rightarrow> error + fstate" where
  "if_no_else_close decision_id then_end then_entry s =
     (if merge_stack s \<noteq> [] \<and> then_end = Some (last (merge_stack s)) then
        (case dot_edge (Some decision_id) then_entry (Some ''true'') s of
           Inl e \<Rightarrow> Inl e
         | Inr s1 \<Rightarrow> Inl (NameError ''mergerId''))
      else
        (case make_invisible_merge s of (merge_id, s1) \<Rightarrow>
           (case dot_edge then_end merge_id None (s1\<lparr>merge_stack := merge_stack s1 @ [merge_id]\<rparr>) of
              Inl e \<Rightarrow> Inl e | Inr s2 \<Rightarrow>
           (case dot_edge (Some decision_id) then_entry (Some ''true'') s2 of
              Inl e \<Rightarrow> Inl e
            | Inr s3 \<Rightarrow> Inl (NameError ''mergerId'')))))"

definition while_open :: "ASTNode \<Rightarrow> fstate \<Rightarrow> error + (node_id \<times> nat \<times> fstate)" where
  "while_open node s =
     (case new_node_id s of (cond_id, s1) \<Rightarrow>
        (case formatter node of Inl e \<Rightarrow> Inl e | Inr label \<Rightarrow>
        (case edge_from_last cond_id (dot_node cond_id label diamond s1) of
           Inl e \<Rightarrow> Inl e
         | Inr s2 \<Rightarrow> Inr (cond_id, node_count s2, s2\<lparr>last_node := None\<rparr>))))"

definition false_to_merge :: "node_id \<Rightarrow> fstate \<Rightarrow> error + fstate" where
  "false_to_merge cond_id s =
     (case make_invisible_merge s of (merge_id, s1) \<Rightarrow>
        (case dot_edge (Some cond_id) merge_id (Some ''false'') s1 of
           Inl e \<Rightarrow> Inl e
         | Inr s2 \<Rightarrow> Inr (s2\<lparr>last_node := Some merge_id\<rparr>)))"

definition while_close :: "node_id \<Rightarrow> nat \<Rightarrow> fstate \<Rightarrow> error + fstate" where
  "while_close cond_id before_body s =
     (let body_end = last_node s; body_entry = before_body + 1
      in case dot_edge (Some cond_id) body_entry (Some ''true'') s of Inl e \<Rightarrow> Inl e | Inr s1 \<Rightarrow>
        (case dot_edge body_end cond_id None s1 of Inl e \<Rightarrow> Inl e | Inr s2 \<Rightarrow>
           false_to_merge cond_id s2))"

definition for_open :: "ASTNode option list \<Rightarrow> fstate \<Rightarrow> error + (node_id \<times> nat \<times> fstate)" where
  "for_open cs s =
     (case new_node_id s of (cond_id, s1) \<Rightarrow>
        (case py_index cs 1 of Inl e \<Rightarrow> Inl e | Inr c1 \<Rightarrow>
        (case (case c1 of None \<Rightarrow> Inr (Some '''') | Some n \<Rightarrow> expr_to_str n) of
           Inl e \<Rightarrow> Inl e | Inr cond_label \<Rightarrow>
        (case edge_from_last cond_id
                (dot_node cond_id (Some (''for_cond ('' @ str cond_label @ '')'')) diamond s1) of
           Inl e \<Rightarrow> Inl e
         | Inr s2 \<Rightarrow> Inr (cond_id, node_count s2, s2\<lparr>last_node := None\<rparr>)))))"

definition for_close :: "ASTNode option list \<Rightarrow> node_id \<Rightarrow> nat \<Rightarrow> fstate \<Rightarrow> error + fstate" where
  "for_close cs cond_id before_body s =
     (let body_end = last_node s; body_entry = before_body + 1
      in case dot_edge (Some cond_id) body_entry (Some ''true'') s of Inl e \<Rightarrow> Inl e | Inr s1 \<Rightarrow>
        (case py_index cs 2 of Inl e \<Rightarrow> Inl e | Inr upd_node \<Rightarrow>
        (case (case upd_node of
                 Some upd \<Rightarrow>
                   (case new_node_id s1 of (upd_id, s2) \<Rightarrow>
                      (case formatter upd of Inl e \<Rightarrow> Inl e | Inr label \<Rightarrow>
                      (case dot_edge body_end upd_id None (dot_node upd_id label box s2) of
                         Inl e \<Rightarrow> Inl e
                       | Inr s3 \<Rightarrow> dot_edge (Some upd_id) cond_id None s3)))
               | None \<Rightarrow> dot_edge body_end cond_id None s1) of
           Inl e \<Rightarrow> Inl e
         | Inr s4 \<Rightarrow> false_to_merge cond_id s4)))"

definition do_while_close :: "ASTNode option list \<Rightarrow> nat \<Rightarrow> fstate \<Rightarrow> error + fstate" where
  "do_while_close cs before_body s =
     (let body_end = last_node s
      in case new_node_id s of (cond_id, s1) \<Rightarrow>
        (case child_expr_str cs 1 of Inl e \<Rightarrow> Inl e | Inr cond_label \<Rightarrow>
        (case dot_edge body_end cond_id None
                (dot_node cond_id (Some (''while ('' @ str cond_label @ '')'')) diamond s1) of
           Inl e \<Rightarrow> Inl e | Inr s2 \<Rightarrow>
        (case dot_edge (Some cond_id) (before_body + 1) (Some ''true'') s2 of
           Inl e \<Rightarrow> Inl e
         | Inr s3 \<Rightarrow> false_to_merge cond_id s3))))"

fun process_node :: "ASTNode \<Rightarrow> fstate \<Rightarrow> error + fstate"
and process_children :: "ASTNode option list \<Rightarrow> fstate \<Rightarrow> error + fstate" where
  "process_node (ASTNode t v cs) s =
     (if t \<in> {''program'', ''function'', ''compound_stmt''} then process_children cs s
      else if t \<in> {''var_decl'', ''assign'', ''return_stmt'', ''stmt''} then process_box (ASTNode t v cs) s
      else if t = ''if_stmt'' then
        (case if_open (ASTNode t v cs) s of Inl e \<Rightarrow> Inl e | Inr (decision_id, before_then, s1) \<Rightarrow>
        (case get_child cs 1 of Inl e \<Rightarrow> Inl e | Inr then_node \<Rightarrow>
        (case process_node then_node s1 of Inl e \<Rightarrow> Inl e | Inr s2 \<Rightarrow>
           if length cs = 3 then
             (case get_child cs 2 of Inl e \<Rightarrow> Inl e | Inr else_node \<Rightarrow>
             (case process_node else_node (s2\<lparr>last_node := Some decision_id\<rparr>) of
                Inl e \<Rightarrow> Inl e
              | Inr s3 \<Rightarrow>
                  if_else_close decision_id (last_node s2) (before_then + 1)
                    (last_node s3) (node_count s2 + 1) s3))
           else if_no_else_close decision_id (last_node s2) (before_then + 1) s2)))
      else if t = ''while'' then
        (case while_open (ASTNode t v cs) s of Inl e \<Rightarrow> Inl e | Inr (cond_id, before_body, s1) \<Rightarrow>
        (case get_child cs 1 of Inl e \<Rightarrow> Inl e | Inr body \<Rightarrow>
        (case process_node body s1 of Inl e \<Rightarrow> Inl e | Inr s2 \<Rightarrow>
           while_close cond_id before_body s2)))
      else if t = ''for'' then
        (case py_index cs 0 of Inl e \<Rightarrow> Inl e | Inr init_node \<Rightarrow>
        (case (case init_node of None \<Rightarrow> Inr s | Some init \<Rightarrow> process_node init s) of
           Inl e \<Rightarrow> Inl e | Inr s1 \<Rightarrow>
        (case for_open cs s1 of Inl e \<Rightarrow> Inl e | Inr (cond_id, before_body, s2) \<Rightarrow>
        (case get_child cs 3 of Inl e \<Rightarrow> Inl e | Inr body \<Rightarrow>
        (case process_node body s2 of Inl e \<Rightarrow> Inl e | Inr s3 \<Rightarrow>
           for_close cs cond_id before_body s3)))))
      else if t = ''do_while'' then
        (case get_child cs 0 of Inl e \<Rightarrow> Inl e | Inr body \<Rightarrow>
        (case process_node body s of Inl e \<Rightarrow> Inl e | Inr s1 \<Rightarrow>
           do_while_close cs (node_count s) s1))
      else if t \<in> {''type'', ''main''} then Inr s
      else process_children cs s)"
| "process_children [] s = Inr s"
| "process_children (None # cs) s = process_children cs s"
| "process_children (Some child # cs) s =
     (case process_node child s of Inl e \<Rightarrow> Inl e | Inr s1 \<Rightarrow> process_children cs s1)"

definition generate :: "ASTNode \<Rightarrow> error + fstate" where
  "generate ast_root =
     (case new_node_id \<lparr>node_count = 0, last_node = None, merge_stack = [], nodes = [], edges = []\<rparr> of
        (start_id, s0) \<Rightarrow>
          (case process_node ast_root ((dot_node start_id (Some ''Start'') oval s0)\<lparr>last_node := Some start_id\<rparr>) of
             Inl e \<Rightarrow> Inl e
           | Inr s1 \<Rightarrow>
               (case new_node_id s1 of (end_id, s2) \<Rightarrow>
                  edge_from_last end_id (dot_node end_id (Some ''End'') oval s2))))"

section \<open>Running the stages on token lists\<close>

definition tk :: "tok_type \<Rightarrow> string \<Rightarrow> token" where
  "tk t v = \<lparr>ttype = t, tvalue = v\<rparr>"

definition main_tokens :: "token list \<Rightarrow> token list" where
  "main_tokens body =
     [tk INT_KW ''int'', tk MAIN ''main'', tk LPAREN ''('', tk RPAREN '')'', tk LBRACE ''{'']
     @ body @ [tk RBRACE ''}'']"

definition analyze_tokens :: "nat \<Rightarrow> token list \<Rightarrow> error + string list" where
  "analyze_tokens fuel ts =
     (case parse fuel ts of Inl e \<Rightarrow> Inl e | Inr ast \<Rightarrow> run_analyzer ast)"

definition flowchart_tokens :: "nat \<Rightarrow> token list \<Rightarrow> error + fstate" where
  "flowchart_tokens fuel ts =
     (case parse fuel ts of Inl e \<Rightarrow> Inl e | Inr ast \<Rightarrow> generate ast)"

text \<open>\<^verbatim>\<open>int main() { int x = x; return 0; }\<close>\<close>

definition self_init_program :: "token list" where
  "self_init_program = main_tokens
     [tk INT_KW ''int'', tk ID ''x'', tk OP ''='', tk ID ''x'', tk SEMI '';'',
      tk RETURN ''return'', tk NUM ''0'', tk SEMI '';'']"

text \<open>\<^verbatim>\<open>int main() { int x; int x; }\<close>\<close>

definition twice_declared_program :: "token list" where
  "twice_declared_program = main_tokens
     [tk INT_KW ''int'', tk ID ''x'', tk SEMI '';'', tk INT_KW ''int'', tk ID ''x'', tk SEMI '';'']"

text \<open>\<^verbatim>\<open>int main() { int x; x = 1; int x; }\<close>\<close>

definition declared_assigned_declared_program :: "token list" where
  "declared_assigned_declared_program = main_tokens
     [tk INT_KW ''int'', tk ID ''x'', tk SEMI '';'',
      tk ID ''x'', tk OP ''='', tk NUM ''1'', tk SEMI '';'',
      tk INT_KW ''int'', tk ID ''x'', tk SEMI '';'']"

text \<open>\<^verbatim>\<open>int main() { cin >> x; return 0; }\<close>\<close>

definition opaque_program :: "token list" where
  "opaque_program = main_tokens
     [tk ID ''cin'', tk OP ''>>'', tk ID ''x'', tk SEMI '';'',
      tk RETURN ''return'', tk NUM ''0'', tk SEMI '';'']"

text \<open>\<^verbatim>\<open>int main() { if (x > 0) { y = 1; } }\<close>\<close>

definition if_without_else_program :: "token list" where
  "if_without_else_program = main_tokens
     [tk IF ''if'', tk LPAREN ''('', tk ID ''x'', tk OP ''>'', tk NUM ''0'', tk RPAREN '')'',
      tk LBRACE ''{'', tk ID ''y'', tk OP ''='', tk NUM ''1'', tk SEMI '';'', tk RBRACE ''}'']"

text \<open>\<^verbatim>\<open>int main() { if (x > 0) { y = 1; } else { y = 2; } }\<close>\<close>

definition if_else_program :: "token list" where
  "if_else_program = main_tokens
     [tk IF ''if'', tk LPAREN ''('', tk ID ''x'', tk OP ''>'', tk NUM ''0'', tk RPAREN '')'',
      tk LBRACE ''{'', tk ID ''y'', tk OP ''='', tk NUM ''1'', tk SEMI '';'', tk RBRACE ''}'',
      tk ELSE ''else'',
      tk LBRACE ''{'', tk ID ''y'', tk OP ''='', tk NUM ''2'', tk SEMI '';'', tk RBRACE ''}'']"

text \<open>\<^verbatim>\<open>int main() { while (x < 10) { x = x + 1; } }\<close>\<close>

definition while_program :: "token list" where
  "while_program = main_tokens
     [tk WHILE ''while'', tk LPAREN ''('', tk ID ''x'', tk OP ''<'', tk NUM ''10'', tk RPAREN '')'',
      tk LBRACE ''{'', tk ID ''x'', tk OP ''='', tk ID ''x'', tk OP ''+'', tk NUM ''1'', tk SEMI '';'',
      tk RBRACE ''}'']"

text \<open>\<^verbatim>\<open>int main() { while (x < 1) { } }\<close>\<close>

definition empty_while_program :: "token list" where
  "empty_while_program = main_tokens
     [tk WHILE ''while'', tk LPAREN ''('', tk ID ''x'', tk OP ''<'', tk NUM ''1'', tk RPAREN '')'',
      tk LBRACE ''{'', tk RBRACE ''}'']"

text \<open>\<^verbatim>\<open>int main() { for (i = 0; i < 3; i = i + 1) { } }\<close>\<close>

definition empty_for_program :: "token list" where
  "empty_for_program = main_tokens
     [tk FOR ''for'', tk LPAREN ''('', tk ID ''i'', tk OP ''='', tk NUM ''0'', tk SEMI '';'',
      tk ID ''i'', tk OP ''<'', tk NUM ''3'', tk SEMI '';'',
      tk ID ''i'', tk OP ''='', tk ID ''i'', tk OP ''+'', tk NUM ''1'', tk RPAREN '')'',
      tk LBRACE ''{'', tk RBRACE ''}'']"

text \<open>\<^verbatim>\<open>int main() { do { x = 1; } while (x < 5); }\<close>\<close>

definition do_while_program :: "token list" where
  "do_while_program = main_tokens
     [tk DO ''do'', tk LBRACE ''{'', tk ID ''x'', tk OP ''='', tk NUM ''1'', tk SEMI '';'',
      tk RBRACE ''}'', tk WHILE ''while'', tk LPAREN ''('', tk ID ''x'', tk OP ''<'', tk NUM ''5'',
      tk RPAREN '')'', tk SEMI '';'']"

text \<open>The state of the generator after the start oval, as \<open>generate\<close> sets it up.\<close>

definition start_state :: fstate where
  "start_state =
     \<lparr>node_count = 1, last_node = Some 1, merge_stack = [],
      nodes = [(1, Some ''Start'', oval)], edges = []\<rparr>"

text \<open>
  The edges that leave a node and the nodes of a shape, read off a graph; and the
  invariant of the generator state during a walk: the counter is at least one, the
  cursor and the tail of every edge are identifiers already given out, no edge points
  at the first identifier, identifiers are given out once, and the start oval is the
  only oval.
\<close>

definition out_edges :: "fstate \<Rightarrow> node_id \<Rightarrow> gedge list" where
  "out_edges g n = filter (\<lambda>e. fst e = n) (edges g)"

definition in_edges :: "fstate \<Rightarrow> node_id \<Rightarrow> gedge list" where
  "in_edges g n = filter (\<lambda>e. fst (snd e) = n) (edges g)"

definition ovals :: "fstate \<Rightarrow> gnode list" where
  "ovals g = filter (\<lambda>n. snd (snd n) = oval) (nodes g)"

definition wf_state :: "fstate \<Rightarrow> bool" where
  "wf_state s \<longleftrightarrow>
     1 \<le> node_count s \<and>
     (case last_node s of None \<Rightarrow> True | Some l \<Rightarrow> l \<le> node_count s) \<and>
     list_all (\<lambda>e. fst e \<le> node_count s \<and> 2 \<le> fst (snd e)) (edges s) \<and>
     list_all (\<lambda>n. fst n \<le> node_count s) (nodes s) \<and>
     distinct (map fst (nodes s)) \<and>
     ovals s = [(1, Some ''Start'', oval)]"

text \<open>The syntax trees of the sample programs, as the parser builds them.\<close>

definition main_ast :: "ASTNode option list \<Rightarrow> ASTNode" where
  "main_ast stmts =
     ASTNode ''program'' None
       [Some (ASTNode ''function'' None
          [Some (ASTNode ''type'' (Some ''int'') []),
           Some (ASTNode ''main'' (Some ''main'') []),
           Some (ASTNode ''compound_stmt'' None stmts)])]"

definition binary :: "string \<Rightarrow> string \<Rightarrow> ASTNode \<Rightarrow> ASTNode \<Rightarrow> ASTNode" where
  "binary kind op l r = ASTNode kind (Some op) [Some l, Some r]"

definition ident :: "string \<Rightarrow> ASTNode" where
  "ident x = ASTNode ''id'' (Some x) []"

definition num :: "string \<Rightarrow> ASTNode" where
  "num n = ASTNode ''num'' (Some n) []"

definition assign :: "string \<Rightarrow> ASTNode \<Rightarrow> ASTNode" where
  "assign x e = ASTNode ''assign'' None [Some (ident x), Some e]"

definition var_decl_ast :: "string \<Rightarrow> ASTNode" where
  "var_decl_ast x = ASTNode ''var_decl'' None [Some (ASTNode ''type'' (Some ''int'') []), Some (ident x)]"

definition while_stmt_ast :: ASTNode where
  "while_stmt_ast =
     ASTNode ''while'' None
       [Some (binary ''comparison'' ''<'' (ident ''x'') (num ''10'')),
        Some (ASTNode ''compound_stmt'' None
          [Some (assign ''x'' (binary ''arith_expr'' ''+'' (ident ''x'') (num ''1'')))])]"

definition empty_while_stmt_ast :: ASTNode where
  "empty_while_stmt_ast =
     ASTNode ''while'' None
       [Some (binary ''comparison'' ''<'' (ident ''x'') (num ''1'')),
        Some (ASTNode ''compound_stmt'' None [])]"

definition empty_for_stmt_ast :: ASTNode where
  "empty_for_stmt_ast =
     ASTNode ''for'' None
       [Some (assign ''i'' (num ''0'')),
        Some (binary ''comparison'' ''<'' (ident ''i'') (num ''3'')),
        Some (assign ''i'' (binary ''arith_expr'' ''+'' (ident ''i'') (num ''1''))),
        Some (ASTNode ''compound_stmt'' None [])]"

definition do_while_stmt_ast :: ASTNode where
  "do_while_stmt_ast =
     ASTNode ''do_while'' None
       [Some (ASTNode ''compound_stmt'' None [Some (assign ''x'' (num ''1''))]),
        Some (binary ''comparison'' ''<'' (ident ''x'') (num ''5''))]"

definition while_graph :: fstate where
  "while_graph =
     \<lparr>node_count = 5, last_node = Some 4, merge_stack = [],
      nodes = [(1, Some ''Start'', oval), (2, Some ''while (x < 10)'', diamond),
               (3, Some ''x = x + 1'', box), (4, Some '''', point), (5, Some ''End'', oval)],
      edges = [(1, 2, None), (2, 3, Some ''true''), (3, 2, None), (2, 4, Some ''false''),
               (4, 5, None)]\<rparr>"

definition do_while_graph :: fstate where
  "do_while_graph =
     \<lparr>node_count = 5, last_node = Some 4, merge_stack = [],
      nodes = [(1, Some ''Start'', oval), (2, Some ''x = 1'', box),
               (3, Some ''while (x < 5)'', diamond), (4, Some '''', point), (5, Some ''End'', oval)],
      edges = [(1, 2, None), (2, 3, None), (3, 2, Some ''true''), (3, 4, Some ''false''),
               (4, 5, None)]\<rparr>"

text \<open>
  The tokens of a statement as the specification words them: those before the next
  semicolon together with that semicolon, and the tokens left after them. A token of
  type \<^verbatim>\<open>EOF\<close> in the list ends the statement as the end of the list does.
\<close>

definition in_statement :: "token \<Rightarrow> bool" where
  "in_statement t = (ttype t \<noteq> SEMI \<and> ttype t \<noteq> EOF)"

definition upto_semicolon :: "token list \<Rightarrow> token list" where
  "upto_semicolon ts =
     takeWhile in_statement ts @
     (if cur_type (dropWhile in_statement ts) = SEMI then take 1 (dropWhile in_statement ts) else [])"

definition after_semicolon :: "token list \<Rightarrow> token list" where
  "after_semicolon ts =
     (if cur_type (dropWhile in_statement ts) = SEMI then drop 1 (dropWhile in_statement ts)
      else dropWhile in_statement ts)"

text \<open>\<^verbatim>\<open>cin >> x;\<close>\<close>

definition opaque_statement :: "token list" where
  "opaque_statement = [tk ID ''cin'', tk OP ''>>'', tk ID ''x'', tk SEMI '';'']"

text \<open>\<^verbatim>\<open>int main() { return 0; }\<close>, and a second function \<^verbatim>\<open>int foo() { }\<close> to follow it.\<close>

definition return_program :: "token list" where
  "return_program = main_tokens [tk RETURN ''return'', tk NUM ''0'', tk SEMI '';'']"

definition second_function :: "token list" where
  "second_function =
     [tk INT_KW ''int'', tk ID ''foo'', tk LPAREN ''('', tk RPAREN '')'', tk LBRACE ''{'',
      tk RBRACE ''}'']"

definition return_ast :: ASTNode where
  "return_ast = main_ast [Some (ASTNode ''return_stmt'' None [Some (num ''0'')])]"


section \<open>The semantic analyzer on declarations and opaque statements\<close>

lemma analyze_var_decl_init:
  "analyze (ASTNode ''var_decl'' v [ty, Some id_node, Some init]) s =
     analyze init (declare_name (nvalue id_node) s)"
  by (simp add: get_child_def py_index_def)

lemma analyze_var_decl_plain:
  "analyze (ASTNode ''var_decl'' v [ty, Some id_node]) s = Inr (declare_name (nvalue id_node) s)"
  by (simp add: get_child_def py_index_def)

lemma declared_after_declare_name: "x \<in> symbols (declare_name x s)"
  by (simp add: declare_name_def)

lemma analyze_id: "analyze (ASTNode ''id'' x cs) s = Inr (use_name x s)"
  by simp

lemma generic_stmt_shape:
  "\<exists>raw rest. generic_stmt ts = Inr (ASTNode ''stmt'' (Some raw) [], rest)"
  by (cases "gather ts []") (auto simp: generic_stmt_def eat_def cur_type_def split: list.splits)

text \<open>
  Claim C3. A declaration with an initializer puts the declared name into the symbol set
  before the initializer is analyzed: the initializer is analyzed in the state after
  \<open>declare_name\<close>, where the name is present. A declaration whose initializer is the
  declared name itself leaves no message, and the program
  \<^verbatim>\<open>int main() { int x = x; return 0; }\<close> is analyzed to the empty list of diagnostics.
\<close>

theorem var_decl_inserts_name_before_initializer:
  "analyze (ASTNode ''var_decl'' v [ty, Some id_node, Some init]) s =
     analyze init (declare_name (nvalue id_node) s)
   \<and> nvalue id_node \<in> symbols (declare_name (nvalue id_node) s)
   \<and> analyze (ASTNode ''var_decl'' v [ty, Some (ASTNode ''id'' x []), Some (ASTNode ''id'' x [])])
        \<lparr>symbols = {}, errors = []\<rparr> = Inr \<lparr>symbols = {x}, errors = []\<rparr>
   \<and> analyze_tokens 20 self_init_program = Inr []"
proof (intro conjI)
  show "analyze (ASTNode ''var_decl'' v [ty, Some id_node, Some init]) s =
     analyze init (declare_name (nvalue id_node) s)"
    by (rule analyze_var_decl_init)
  show "nvalue id_node \<in> symbols (declare_name (nvalue id_node) s)"
    by (rule declared_after_declare_name)
  show "analyze (ASTNode ''var_decl'' v [ty, Some (ASTNode ''id'' x []), Some (ASTNode ''id'' x [])])
        \<lparr>symbols = {}, errors = []\<rparr> = Inr \<lparr>symbols = {x}, errors = []\<rparr>"
    by (simp add: get_child_def py_index_def declare_name_def use_name_def)
  show "analyze_tokens 20 self_init_program = Inr []"
    by code_simp
qed

subsection \<open>The analyzer replays the declarations and uses of the tree\<close>

lemma follows_simps [simp]:
  "follows (Inl e) s = Inl e"
  "follows (Inr es) s = Inr (fold record_event es s)"
  by (simp_all add: follows_def)

lemma follows_then:
  "follows (then_events a b) s = (case follows a s of Inl e \<Rightarrow> Inl e | Inr s1 \<Rightarrow> follows b s1)"
  by (cases a; cases b) (simp_all add: then_events_def)

lemma follows_then_single:
  "follows (then_events (Inr [ev]) b) s = follows b (record_event ev s)"
  by (cases b) (simp_all add: then_events_def)

lemma analyze_follows_events:
  "analyze n s = follows (events n) s"
  "generic_visit cs s = follows (events_children cs) s"
proof (induction n and cs arbitrary: s and s rule: events_events_children.induct)
  case (1 t v cs)
  consider (var_decl) "t = ''var_decl''" | (assign) "t = ''assign''" | (id_node) "t = ''id''"
    | (if_stmt) "t = ''if_stmt''" | (while_node) "t = ''while''" | (do_while) "t = ''do_while''"
    | (for_node) "t = ''for''" | (return_stmt) "t = ''return_stmt''"
    | (other) "t \<noteq> ''var_decl''" "t \<noteq> ''assign''" "t \<noteq> ''id''" "t \<noteq> ''if_stmt''"
        "t \<noteq> ''while''" "t \<noteq> ''do_while''" "t \<noteq> ''for''" "t \<noteq> ''return_stmt''"
    by argo
  then show ?case
  proof cases
    case var_decl
    with 1(1) show ?thesis
      by (simp add: follows_then_single record_event_def split: sum.splits)
  next
    case assign
    with 1(2) show ?thesis
      by (simp add: follows_then_single record_event_def split: sum.splits)
  next
    case id_node
    then show ?thesis by (simp add: record_event_def)
  next
    case if_stmt
    with 1(3,4,5) show ?thesis
      by (simp add: follows_then split: sum.splits)
  next
    case while_node
    show ?thesis
    proof (cases "get_child cs 0")
      case (Inl e)
      with while_node show ?thesis by simp
    next
      case c0: (Inr c0)
      have a0: "analyze c0 s' = follows (events c0) s'" for s'
        using 1(6) while_node c0 by simp
      show ?thesis
      proof (cases "get_child cs 1")
        case (Inl e)
        with while_node c0 show ?thesis by (simp add: a0 follows_then split: sum.splits)
      next
        case c1: (Inr c1)
        have a1: "analyze c1 s' = follows (events c1) s'" for s'
          using 1(7) while_node c0 c1 by simp
        from while_node c0 c1 show ?thesis by (simp add: a0 a1 follows_then split: sum.splits)
      qed
    qed
  next
    case do_while
    show ?thesis
    proof (cases "get_child cs 0")
      case (Inl e)
      with do_while show ?thesis by simp
    next
      case c0: (Inr c0)
      have a0: "analyze c0 s' = follows (events c0) s'" for s'
        using 1(6) do_while c0 by simp
      show ?thesis
      proof (cases "get_child cs 1")
        case (Inl e)
        with do_while c0 show ?thesis by (simp add: a0 follows_then split: sum.splits)
      next
        case c1: (Inr c1)
        have a1: "analyze c1 s' = follows (events c1) s'" for s'
          using 1(7) do_while c0 c1 by simp
        from do_while c0 c1 show ?thesis by (simp add: a0 a1 follows_then split: sum.splits)
      qed
    qed
  next
    case for_node
    show ?thesis
    proof (cases "py_index cs 0")
      case (Inl e)
      with for_node show ?thesis by simp
    next
      case i0: (Inr c0)
      have a0: "(case c0 of None \<Rightarrow> Inr s' | Some n \<Rightarrow> analyze n s') =
                 follows (case c0 of None \<Rightarrow> Inr [] | Some n \<Rightarrow> events n) s'" for s'
      proof (cases c0)
        case None
        then show ?thesis by simp
      next
        case (Some n)
        have "analyze n s' = follows (events n) s'"
          using 1(8) for_node i0 Some by simp
        with Some show ?thesis by simp
      qed
      show ?thesis
      proof (cases "py_index cs 1")
        case (Inl e)
        with for_node i0 show ?thesis by (simp add: a0 follows_then split: sum.splits)
      next
        case i1: (Inr c1)
      have a1: "(case c1 of None \<Rightarrow> Inr s' | Some n \<Rightarrow> analyze n s') =
                 follows (case c1 of None \<Rightarrow> Inr [] | Some n \<Rightarrow> events n) s'" for s'
      proof (cases c1)
        case None
        then show ?thesis by simp
      next
        case (Some n)
        have "analyze n s' = follows (events n) s'"
          using 1(9) for_node i0 i1 Some by simp
        with Some show ?thesis by simp
      qed
        show ?thesis
        proof (cases "py_index cs 2")
          case (Inl e)
          with for_node i0 i1 show ?thesis by (simp add: a0 a1 follows_then split: sum.splits)
        next
          case i2: (Inr c2)
      have a2: "(case c2 of None \<Rightarrow> Inr s' | Some n \<Rightarrow> analyze n s') =
                 follows (case c2 of None \<Rightarrow> Inr [] | Some n \<Rightarrow> events n) s'" for s'
      proof (cases c2)
        case None
        then show ?thesis by simp
      next
        case (Some n)
        have "analyze n s' = follows (events n) s'"
          using 1(10) for_node i0 i1 i2 Some by simp
        with Some show ?thesis by simp
      qed
          show ?thesis
          proof (cases "get_child cs 3")
            case (Inl e)
            with for_node i0 i1 i2 show ?thesis
              by (simp add: a0 a1 a2 follows_then split: sum.splits)
          next
            case i3: (Inr c3)
            have a3: "analyze c3 s' = follows (events c3) s'" for s'
              using 1(11) for_node i0 i1 i2 i3 by simp
            from for_node i0 i1 i2 i3 show ?thesis
              by (simp add: a0 a1 a2 a3 follows_then split: sum.splits)
          qed
        qed
      qed
    qed
  next
    case return_stmt
    with 1(12) show ?thesis
      by (simp split: sum.splits)
  next
    case other
    with 1(13) show ?thesis
      by simp
  qed
next
  case 2
  show ?case by simp
next
  case (3 cs)
  then show ?case by simp
next
  case (4 child cs)
  then show ?case by (simp add: follows_then split: sum.splits)
qed

lemma declared_append: "declared (xs @ ys) = declared xs \<union> declared ys"
  by (induction xs rule: declared.induct) simp_all

lemma no_violation_append:
  "no_violation S (xs @ ys) \<longleftrightarrow> no_violation S xs \<and> no_violation (S \<union> declared xs) ys"
  by (induction S xs rule: no_violation.induct) simp_all

lemma fold_no_violation:
  "no_violation (symbols s) es \<Longrightarrow>
     fold record_event es s = s\<lparr>symbols := symbols s \<union> declared es\<rparr>"
proof (induction es arbitrary: s)
  case Nil
  then show ?case by simp
next
  case (Cons ev es)
  show ?case
  proof (cases ev)
    case (Declare x)
    with Cons.prems have fresh: "x \<notin> symbols s"
      and rest: "no_violation (symbols (declare_name x s)) es"
      by (simp_all add: declare_name_def)
    from Cons.IH [OF rest] Declare fresh show ?thesis
      by (simp add: record_event_def declare_name_def)
  next
    case (Use x)
    with Cons.prems have known: "x \<in> symbols s" and rest: "no_violation (symbols s) es"
      by simp_all
    from Cons.IH [OF rest] Use known show ?thesis
      by (simp add: record_event_def use_name_def)
  qed
qed

lemma fold_duplicate:
  assumes "no_violation (symbols s) (pre @ Declare x # mid @ post)"
  shows "fold record_event (pre @ Declare x # mid @ Declare x # post) s =
           s\<lparr>symbols := symbols s \<union> declared (pre @ Declare x # mid @ post),
             errors := errors s @ [already_declared x]\<rparr>"
proof -
  let ?before = "pre @ Declare x # mid"
  from assms have "no_violation (symbols s) (?before @ post)"
    by simp
  then have before: "no_violation (symbols s) ?before"
    and post: "no_violation (symbols s \<union> declared ?before) post"
    by (simp_all only: no_violation_append)
  define s1 where "s1 = s\<lparr>symbols := symbols s \<union> declared ?before\<rparr>"
  have run1: "fold record_event ?before s = s1"
    unfolding s1_def by (rule fold_no_violation [OF before])
  have "x \<in> declared ?before"
    by (simp add: declared_append)
  then have known: "x \<in> symbols s1"
    by (simp add: s1_def)
  define s2 where "s2 = s1\<lparr>errors := errors s1 @ [already_declared x]\<rparr>"
  from known have run2: "record_event (Declare x) s1 = s2"
    by (simp add: record_event_def declare_name_def s2_def)
  have "no_violation (symbols s2) post"
    using post by (simp add: s2_def s1_def)
  then have run3: "fold record_event post s2 = s2\<lparr>symbols := symbols s2 \<union> declared post\<rparr>"
    by (rule fold_no_violation)
  have "fold record_event (pre @ Declare x # mid @ Declare x # post) s =
          fold record_event post (record_event (Declare x) (fold record_event ?before s))"
    by simp
  also have "\<dots> = s2\<lparr>symbols := symbols s2 \<union> declared post\<rparr>"
    by (simp only: run1 run2 run3)
  also have "\<dots> = s\<lparr>symbols := symbols s \<union> declared (pre @ Declare x # mid @ post),
                     errors := errors s @ [already_declared x]\<rparr>"
    by (simp add: s2_def s1_def declared_append Un_assoc)
  finally show ?thesis .
qed

lemma analyze_without_violation:
  assumes "events ast = Inr es" and "no_violation {} es"
  shows "analyze ast \<lparr>symbols = {}, errors = []\<rparr> = Inr \<lparr>symbols = declared es, errors = []\<rparr>"
  using assms fold_no_violation [of "\<lparr>symbols = {}, errors = []\<rparr>" es]
  by (simp add: analyze_follows_events(1))

lemma parse_twice_declared_program:
  "parse 20 twice_declared_program = Inr (main_ast [Some (var_decl_ast ''x''), Some (var_decl_ast ''x'')])"
  by code_simp

lemma parse_declared_assigned_declared_program:
  "parse 20 declared_assigned_declared_program =
     Inr (main_ast [Some (var_decl_ast ''x''), Some (assign ''x'' (num ''1'')), Some (var_decl_ast ''x'')])"
  by code_simp

text \<open>
  Claim C4. Take any tree whose declarations and uses, in the order in which the
  analyzer meets them, contain a second declaration of the name \<open>x\<close> somewhere after a
  first one, and are without violation once that second declaration is left out: all
  other declarations are of fresh names and every use is of a declared name. Whatever
  stands before, between and after the two declarations, and however deep they are
  nested, the analyzer returns the single message
  \<^verbatim>\<open>Semantic Error: Variable 'x' already declared\<close> with the name in it, and the
  symbol set it ends with is the set of the names declared without the duplicate.
\<close>

theorem duplicate_declaration_single_diagnostic:
  assumes "events ast = Inr (pre @ Declare x # mid @ Declare x # post)"
    and "no_violation {} (pre @ Declare x # mid @ post)"
  shows "run_analyzer ast =
           Inr [''Semantic Error: Variable '' @ [CHR 0x27]
                @ (case x of None \<Rightarrow> ''None'' | Some name \<Rightarrow> name)
                @ [CHR 0x27] @ '' already declared'']
         \<and> map_sum id symbols (analyze ast \<lparr>symbols = {}, errors = []\<rparr>) =
             Inr (declared (pre @ Declare x # mid @ post))"
proof -
  from assms(2)
  have "fold record_event (pre @ Declare x # mid @ Declare x # post) \<lparr>symbols = {}, errors = []\<rparr> =
          \<lparr>symbols = declared (pre @ Declare x # mid @ post), errors = [already_declared x]\<rparr>"
    using fold_duplicate [of "\<lparr>symbols = {}, errors = []\<rparr>" pre x mid post] by simp
  with assms(1)
  have "analyze ast \<lparr>symbols = {}, errors = []\<rparr> =
          Inr \<lparr>symbols = declared (pre @ Declare x # mid @ post), errors = [already_declared x]\<rparr>"
    by (simp add: analyze_follows_events(1))
  then show ?thesis
    by (simp add: run_analyzer_def already_declared_def str_def)
qed

theorem duplicate_declaration_single_diagnostic_witness:
  "events (main_ast [Some (var_decl_ast ''x''), Some (assign ''x'' (num ''1'')), Some (var_decl_ast ''x'')]) =
     Inr ([] @ Declare (Some ''x'') # [Use (Some ''x'')] @ Declare (Some ''x'') # [])
   \<and> no_violation {} ([] @ Declare (Some ''x'') # [Use (Some ''x'')] @ [])
   \<and> analyze_tokens 20 declared_assigned_declared_program =
       Inr [''Semantic Error: Variable '' @ [CHR 0x27] @ ''x'' @ [CHR 0x27] @ '' already declared'']
   \<and> analyze_tokens 20 twice_declared_program =
       Inr [''Semantic Error: Variable '' @ [CHR 0x27] @ ''x'' @ [CHR 0x27] @ '' already declared'']"
proof -
  let ?p1 = "main_ast [Some (var_decl_ast ''x''), Some (assign ''x'' (num ''1'')), Some (var_decl_ast ''x'')]"
  let ?p2 = "main_ast [Some (var_decl_ast ''x''), Some (var_decl_ast ''x'')]"
  have e1: "events ?p1 = Inr ([] @ Declare (Some ''x'') # [Use (Some ''x'')] @ Declare (Some ''x'') # [])"
    by code_simp
  have e2: "events ?p2 = Inr ([] @ Declare (Some ''x'') # [] @ Declare (Some ''x'') # [])"
    by code_simp
  have n1: "no_violation {} ([] @ Declare (Some ''x'') # [Use (Some ''x'')] @ [])"
    by simp
  have n2: "no_violation {} ([] @ Declare (Some ''x'') # [] @ [])"
    by simp
  from duplicate_declaration_single_diagnostic [OF e1 n1] duplicate_declaration_single_diagnostic [OF e2 n2]
  show ?thesis
    by (simp add: e1 analyze_tokens_def parse_twice_declared_program
        parse_declared_assigned_declared_program)
qed

text \<open>
  Claim C10. The generic statement never fails and its node has the type \<^verbatim>\<open>stmt\<close>, the
  collected text as value and no children; a statement that starts with an identifier
  not followed by \<^verbatim>\<open>=\<close> is that node. The analyzer walks such a node without touching
  its state, so the undeclared \<^verbatim>\<open>x\<close> of \<^verbatim>\<open>int main() { cin >> x; return 0; }\<close> gives
  no diagnostic.
\<close>

theorem opaque_statements_are_not_checked:
  "(\<exists>raw rest. generic_stmt ts = Inr (ASTNode ''stmt'' (Some raw) [], rest))
   \<and> stmt (Suc fuel) (tk ID name # ts) =
       (if is_op ts [''=''] then assign_stmt fuel (tk ID name # ts) else generic_stmt (tk ID name # ts))
   \<and> analyze (ASTNode ''stmt'' raw []) s = Inr s
   \<and> analyze_tokens 20 opaque_program = Inr []"
proof (intro conjI)
  show "\<exists>raw rest. generic_stmt ts = Inr (ASTNode ''stmt'' (Some raw) [], rest)"
    by (rule generic_stmt_shape)
  show "stmt (Suc fuel) (tk ID name # ts) =
       (if is_op ts [''=''] then assign_stmt fuel (tk ID name # ts) else generic_stmt (tk ID name # ts))"
    by (simp add: cur_type_def tk_def)
  show "analyze (ASTNode ''stmt'' raw []) s = Inr s"
    by simp
  show "analyze_tokens 20 opaque_program = Inr []"
    by code_simp
qed

definition last_edge :: "fstate \<Rightarrow> node_id \<Rightarrow> gedge list" where
  "last_edge s head_name = (case last_node s of None \<Rightarrow> [] | Some l \<Rightarrow> [(l, head_name, None)])"

lemma edge_from_last_eq:
  "edge_from_last h s = Inr (s\<lparr>edges := edges s @ last_edge s h\<rparr>)"
  by (simp add: edge_from_last_def last_edge_def dot_edge_def split: option.splits)

lemma dot_edge_Inr:
  "dot_edge t h l s = Inr s' \<longleftrightarrow> (\<exists>a. t = Some a \<and> s' = s\<lparr>edges := edges s @ [(a, h, l)]\<rparr>)"
  by (auto simp: dot_edge_def split: option.splits)

lemma make_invisible_merge_eq:
  "make_invisible_merge s =
     (node_count s + 1,
      s\<lparr>node_count := node_count s + 1, nodes := nodes s @ [(node_count s + 1, Some '''', point)]\<rparr>)"
  by (simp add: make_invisible_merge_def new_node_id_def dot_node_def)

lemma process_box_Inr:
  "process_box node s = Inr s' \<longleftrightarrow>
     (\<exists>label. formatter node = Inr label \<and>
        s' = s\<lparr>node_count := node_count s + 1, last_node := Some (node_count s + 1),
               nodes := nodes s @ [(node_count s + 1, label, box)],
               edges := edges s @ last_edge s (node_count s + 1)\<rparr>)"
  by (auto simp: process_box_def new_node_id_def dot_node_def edge_from_last_eq last_edge_def
      split: sum.splits)

lemma if_open_Inr:
  "if_open node s = Inr (d, b, s1) \<longleftrightarrow>
     (\<exists>label. formatter node = Inr label \<and> d = node_count s + 1 \<and> b = node_count s + 1 \<and>
        s1 = s\<lparr>node_count := node_count s + 1, last_node := Some (node_count s + 1),
               nodes := nodes s @ [(node_count s + 1, label, diamond)],
               edges := edges s @ last_edge s (node_count s + 1)\<rparr>)"
  by (auto simp: if_open_def new_node_id_def dot_node_def edge_from_last_eq last_edge_def
      split: sum.splits)

lemma while_open_Inr:
  "while_open node s = Inr (c, b, s1) \<longleftrightarrow>
     (\<exists>label. formatter node = Inr label \<and> c = node_count s + 1 \<and> b = node_count s + 1 \<and>
        s1 = s\<lparr>node_count := node_count s + 1, last_node := None,
               nodes := nodes s @ [(node_count s + 1, label, diamond)],
               edges := edges s @ last_edge s (node_count s + 1)\<rparr>)"
  by (auto simp: while_open_def new_node_id_def dot_node_def edge_from_last_eq last_edge_def
      split: sum.splits)

lemma for_open_Inr:
  "for_open cs s = Inr (c, b, s1) \<longleftrightarrow>
     (\<exists>label. c = node_count s + 1 \<and> b = node_count s + 1 \<and>
        s1 = s\<lparr>node_count := node_count s + 1, last_node := None,
               nodes := nodes s @ [(node_count s + 1, Some label, diamond)],
               edges := edges s @ last_edge s (node_count s + 1)\<rparr>
        \<and> (\<exists>c1 cl. py_index cs 1 = Inr c1 \<and>
               (case c1 of None \<Rightarrow> Inr (Some '''') | Some n \<Rightarrow> expr_to_str n) = Inr cl \<and>
               label = ''for_cond ('' @ str cl @ '')''))"
  by (auto simp: for_open_def new_node_id_def dot_node_def edge_from_last_eq last_edge_def
      split: sum.splits)

lemma false_to_merge_eq:
  "false_to_merge c s =
     Inr (s\<lparr>node_count := node_count s + 1, last_node := Some (node_count s + 1),
            nodes := nodes s @ [(node_count s + 1, Some '''', point)],
            edges := edges s @ [(c, node_count s + 1, Some ''false'')]\<rparr>)"
  by (simp add: false_to_merge_def make_invisible_merge_eq dot_edge_def)

lemma while_close_Inr:
  "while_close c b s = Inr s' \<longleftrightarrow>
     (\<exists>e. last_node s = Some e \<and>
        s' = s\<lparr>node_count := node_count s + 1, last_node := Some (node_count s + 1),
               nodes := nodes s @ [(node_count s + 1, Some '''', point)],
               edges := edges s @ [(c, b + 1, Some ''true''), (e, c, None),
                                   (c, node_count s + 1, Some ''false'')]\<rparr>)"
  by (auto simp: while_close_def false_to_merge_eq dot_edge_def Let_def split: option.splits)

lemma if_else_close_Inr:
  "if_else_close d te tn ee en s = Inr s' \<longleftrightarrow>
     (\<exists>a b. te = Some a \<and> ee = Some b \<and>
        s' = s\<lparr>node_count := node_count s + 1, last_node := Some (node_count s + 1),
               merge_stack := merge_stack s @ [node_count s + 1],
               nodes := nodes s @ [(node_count s + 1, Some '''', point)],
               edges := edges s @ [(a, node_count s + 1, None), (b, node_count s + 1, None),
                                   (d, tn, Some ''true''), (d, en, Some ''false'')]\<rparr>)"
  by (auto simp: if_else_close_def make_invisible_merge_eq dot_edge_def split: option.splits)

lemma if_no_else_close_isl: "isl (if_no_else_close d te tn s)"
  by (simp add: if_no_else_close_def make_invisible_merge_eq dot_edge_def split: option.splits)

lemma if_no_else_close_not_Inr [simp]: "if_no_else_close d te tn s \<noteq> Inr s'"
  using if_no_else_close_isl [of d te tn s] by auto

lemma do_while_close_Inr:
  "do_while_close cs b s = Inr s' \<longleftrightarrow>
     (\<exists>e label. last_node s = Some e \<and> child_expr_str cs 1 = Inr label \<and>
        s' = s\<lparr>node_count := node_count s + 2, last_node := Some (node_count s + 2),
               nodes := nodes s @ [(node_count s + 1, Some (''while ('' @ str label @ '')''), diamond),
                                   (node_count s + 2, Some '''', point)],
               edges := edges s @ [(e, node_count s + 1, None),
                                   (node_count s + 1, b + 1, Some ''true''),
                                   (node_count s + 1, node_count s + 2, Some ''false'')]\<rparr>)"
  by (auto simp: do_while_close_def false_to_merge_eq dot_edge_def new_node_id_def dot_node_def Let_def
      split: option.splits sum.splits)

lemma for_close_Inr:
  assumes "for_close cs c b s = Inr s'"
  shows "\<exists>e. last_node s = Some e \<and>
     ((py_index cs 2 = Inr None \<and>
        s' = s\<lparr>node_count := node_count s + 1, last_node := Some (node_count s + 1),
               nodes := nodes s @ [(node_count s + 1, Some '''', point)],
               edges := edges s @ [(c, b + 1, Some ''true''), (e, c, None),
                                   (c, node_count s + 1, Some ''false'')]\<rparr>)
      \<or> (\<exists>u label. py_index cs 2 = Inr (Some u) \<and> formatter u = Inr label \<and>
            s' = s\<lparr>node_count := node_count s + 2, last_node := Some (node_count s + 2),
                   nodes := nodes s @ [(node_count s + 1, label, box),
                                       (node_count s + 2, Some '''', point)],
                   edges := edges s @ [(c, b + 1, Some ''true''), (e, node_count s + 1, None),
                                       (node_count s + 1, c, None),
                                       (c, node_count s + 2, Some ''false'')]\<rparr>))"
proof (cases "last_node s")
  case None
  with assms show ?thesis
    by (simp add: for_close_def dot_edge_def new_node_id_def dot_node_def Let_def
        split: option.splits sum.splits)
next
  case (Some e)
  with assms show ?thesis
    by (auto simp: for_close_def false_to_merge_eq dot_edge_def new_node_id_def dot_node_def Let_def
        split: option.splits sum.splits)
qed

lemma py_index_in_set: "py_index cs i = Inr x \<Longrightarrow> x \<in> set cs"
  by (auto simp: py_index_def split: if_splits)

lemma get_child_in_set: "get_child cs i = Inr c \<Longrightarrow> Some c \<in> set cs"
  by (auto simp: get_child_def split: sum.splits option.splits dest: py_index_in_set)

lemma process_node_sequence:
  "t \<in> {''program'', ''function'', ''compound_stmt''} \<Longrightarrow>
   process_node (ASTNode t v cs) s = process_children cs s"
  by simp

lemma process_node_action:
  "t \<in> {''var_decl'', ''assign'', ''return_stmt'', ''stmt''} \<Longrightarrow>
   process_node (ASTNode t v cs) s = process_box (ASTNode t v cs) s"
  by (elim insertE emptyE; hypsubst; simp)

lemma process_node_structural:
  "t \<in> {''type'', ''main''} \<Longrightarrow> process_node (ASTNode t v cs) s = Inr s"
  by (elim insertE emptyE; hypsubst; simp)

lemma process_node_fallback:
  "t \<notin> {''program'', ''function'', ''compound_stmt'', ''var_decl'', ''assign'', ''return_stmt'',
         ''stmt'', ''if_stmt'', ''while'', ''for'', ''do_while'', ''type'', ''main''} \<Longrightarrow>
   process_node (ASTNode t v cs) s = process_children cs s"
  by simp

lemma process_node_if_stmt:
  "process_node (ASTNode ''if_stmt'' v cs) s =
     (case if_open (ASTNode ''if_stmt'' v cs) s of Inl e \<Rightarrow> Inl e | Inr (decision_id, before_then, s1) \<Rightarrow>
     (case get_child cs 1 of Inl e \<Rightarrow> Inl e | Inr then_node \<Rightarrow>
     (case process_node then_node s1 of Inl e \<Rightarrow> Inl e | Inr s2 \<Rightarrow>
        if length cs = 3 then
          (case get_child cs 2 of Inl e \<Rightarrow> Inl e | Inr else_node \<Rightarrow>
          (case process_node else_node (s2\<lparr>last_node := Some decision_id\<rparr>) of
             Inl e \<Rightarrow> Inl e
           | Inr s3 \<Rightarrow>
               if_else_close decision_id (last_node s2) (before_then + 1)
                 (last_node s3) (node_count s2 + 1) s3))
        else if_no_else_close decision_id (last_node s2) (before_then + 1) s2)))"
  by simp

lemma process_node_while:
  "process_node (ASTNode ''while'' v cs) s =
     (case while_open (ASTNode ''while'' v cs) s of Inl e \<Rightarrow> Inl e | Inr (cond_id, before_body, s1) \<Rightarrow>
     (case get_child cs 1 of Inl e \<Rightarrow> Inl e | Inr body \<Rightarrow>
     (case process_node body s1 of Inl e \<Rightarrow> Inl e | Inr s2 \<Rightarrow>
        while_close cond_id before_body s2)))"
  by simp

lemma process_node_for:
  "process_node (ASTNode ''for'' v cs) s =
     (case py_index cs 0 of Inl e \<Rightarrow> Inl e | Inr init_node \<Rightarrow>
     (case (case init_node of None \<Rightarrow> Inr s | Some init \<Rightarrow> process_node init s) of
        Inl e \<Rightarrow> Inl e | Inr s1 \<Rightarrow>
     (case for_open cs s1 of Inl e \<Rightarrow> Inl e | Inr (cond_id, before_body, s2) \<Rightarrow>
     (case get_child cs 3 of Inl e \<Rightarrow> Inl e | Inr body \<Rightarrow>
     (case process_node body s2 of Inl e \<Rightarrow> Inl e | Inr s3 \<Rightarrow>
        for_close cs cond_id before_body s3)))))"
  by simp

lemma process_node_do_while:
  "process_node (ASTNode ''do_while'' v cs) s =
     (case get_child cs 0 of Inl e \<Rightarrow> Inl e | Inr body \<Rightarrow>
     (case process_node body s of Inl e \<Rightarrow> Inl e | Inr s1 \<Rightarrow>
        do_while_close cs (node_count s) s1))"
  by simp

lemma process_node_if_stmt_E:
  assumes "process_node (ASTNode ''if_stmt'' v cs) s = Inr s'"
  obtains d b s1 tn s2 en s3 where
    "if_open (ASTNode ''if_stmt'' v cs) s = Inr (d, b, s1)"
    "get_child cs 1 = Inr tn" "process_node tn s1 = Inr s2"
    "length cs = 3" "get_child cs 2 = Inr en"
    "process_node en (s2\<lparr>last_node := Some d\<rparr>) = Inr s3"
    "if_else_close d (last_node s2) (b + 1) (last_node s3) (node_count s2 + 1) s3 = Inr s'"
  using assms unfolding process_node_if_stmt
  by (auto split: sum.splits if_splits)

lemma process_node_while_E:
  assumes "process_node (ASTNode ''while'' v cs) s = Inr s'"
  obtains c b s1 body s2 where
    "while_open (ASTNode ''while'' v cs) s = Inr (c, b, s1)"
    "get_child cs 1 = Inr body" "process_node body s1 = Inr s2"
    "while_close c b s2 = Inr s'"
  using assms unfolding process_node_while
  by (auto split: sum.splits)

lemma process_node_for_E:
  assumes "process_node (ASTNode ''for'' v cs) s = Inr s'"
  obtains init s1 c b s2 body s3 where
    "py_index cs 0 = Inr init"
    "(case init of None \<Rightarrow> Inr s | Some i \<Rightarrow> process_node i s) = Inr s1"
    "for_open cs s1 = Inr (c, b, s2)"
    "get_child cs 3 = Inr body" "process_node body s2 = Inr s3"
    "for_close cs c b s3 = Inr s'"
  using assms unfolding process_node_for
  by (auto split: sum.splits)

lemma process_node_do_while_E:
  assumes "process_node (ASTNode ''do_while'' v cs) s = Inr s'"
  obtains body s1 where
    "get_child cs 0 = Inr body" "process_node body s = Inr s1"
    "do_while_close cs (node_count s) s1 = Inr s'"
  using assms unfolding process_node_do_while
  by (auto split: sum.splits)

lemma disj13:
  "(a \<or> b \<or> c) \<or> (d \<or> e \<or> f \<or> g) \<or> h \<or> i \<or> j \<or> k \<or> (l \<or> m) \<or>
   \<not> (a \<or> b \<or> c \<or> d \<or> e \<or> f \<or> g \<or> h \<or> i \<or> j \<or> k \<or> l \<or> m)"
  by blast

lemma node_type_disj:
  "t \<in> {''program'', ''function'', ''compound_stmt''} \<or>
   t \<in> {''var_decl'', ''assign'', ''return_stmt'', ''stmt''} \<or>
   t = ''if_stmt'' \<or> t = ''while'' \<or> t = ''for'' \<or> t = ''do_while'' \<or>
   t \<in> {''type'', ''main''} \<or>
   t \<notin> {''program'', ''function'', ''compound_stmt'', ''var_decl'', ''assign'',
       ''return_stmt'', ''stmt'', ''if_stmt'', ''while'', ''for'', ''do_while'', ''type'', ''main''}"
  unfolding insert_iff empty_iff simp_thms by (rule disj13)

lemma node_type_cases:
  obtains (sequence) "t \<in> {''program'', ''function'', ''compound_stmt''}"
  | (action) "t \<in> {''var_decl'', ''assign'', ''return_stmt'', ''stmt''}"
  | (if_node) "t = ''if_stmt''"
  | (while_node) "t = ''while''"
  | (for_node) "t = ''for''"
  | (do_while_node) "t = ''do_while''"
  | (structural) "t \<in> {''type'', ''main''}"
  | (fallback) "t \<notin> {''program'', ''function'', ''compound_stmt'', ''var_decl'', ''assign'',
       ''return_stmt'', ''stmt'', ''if_stmt'', ''while'', ''for'', ''do_while'', ''type'', ''main''}"
  using node_type_disj [of t] by (elim disjE)

lemma process_children_rel:
  assumes refl: "\<And>s. R s s"
    and trans: "\<And>s s1 s2. R s s1 \<Longrightarrow> R s1 s2 \<Longrightarrow> R s s2"
  shows "\<forall>c. Some c \<in> set cs \<longrightarrow> (\<forall>s s'. process_node c s = Inr s' \<longrightarrow> R s s') \<Longrightarrow>
         process_children cs s = Inr s' \<Longrightarrow> R s s'"
proof (induction cs arbitrary: s)
  case Nil
  then show ?case by (simp add: refl)
next
  case (Cons c cs)
  show ?case
  proof (cases c)
    case None
    with Cons show ?thesis by simp
  next
    case (Some child)
    with Cons.prems obtain s1 where s1: "process_node child s = Inr s1" "process_children cs s1 = Inr s'"
      by (auto split: sum.splits)
    from Some Cons.prems(1) s1 have "R s s1" by simp
    moreover have "R s1 s'" using Cons.IH [OF _ s1(2)] Cons.prems(1) by simp
    ultimately show ?thesis by (rule trans)
  qed
qed

text \<open>
  A relation between the state before and the state after holds for every walk that
  returns, when it is reflexive and transitive and holds across each branch of
  \<open>process_node\<close>, given that it holds across the walks of the subtrees.
\<close>

lemma process_node_rel:
  assumes refl: "\<And>s. R s s"
    and trans: "\<And>s s1 s2. R s s1 \<Longrightarrow> R s1 s2 \<Longrightarrow> R s s2"
    and box_step: "\<And>node s s'. process_box node s = Inr s' \<Longrightarrow> R s s'"
    and if_step: "\<And>node d b s s1 s2 s3 s4.
        if_open node s = Inr (d, b, s1) \<Longrightarrow> R s1 s2 \<Longrightarrow> R (s2\<lparr>last_node := Some d\<rparr>) s3 \<Longrightarrow>
        if_else_close d (last_node s2) (b + 1) (last_node s3) (node_count s2 + 1) s3 = Inr s4 \<Longrightarrow>
        R s s4"
    and while_step: "\<And>node c b s s1 s2 s3.
        while_open node s = Inr (c, b, s1) \<Longrightarrow> R s1 s2 \<Longrightarrow> while_close c b s2 = Inr s3 \<Longrightarrow> R s s3"
    and for_step: "\<And>cs c b s s1 s2 s3 s4.
        R s s1 \<Longrightarrow> for_open cs s1 = Inr (c, b, s2) \<Longrightarrow> R s2 s3 \<Longrightarrow>
        for_close cs c b s3 = Inr s4 \<Longrightarrow> R s s4"
    and do_step: "\<And>cs s s1 s2.
        R s s1 \<Longrightarrow> do_while_close cs (node_count s) s1 = Inr s2 \<Longrightarrow> R s s2"
  shows "process_node n s = Inr s' \<Longrightarrow> R s s'"
proof (induction n arbitrary: s s')
  case (ASTNode t v cs)
  have IH: "\<And>c s s'. Some c \<in> set cs \<Longrightarrow> process_node c s = Inr s' \<Longrightarrow> R s s'"
    using ASTNode.IH by force
  have children: "R s0 s1" if "process_children cs s0 = Inr s1" for s0 s1
    using that
  proof (rule process_children_rel [rotated -1])
    show "R s s" for s by (rule refl)
    show "R s s2" if "R s s1" "R s1 s2" for s s1 s2 using that by (rule trans)
    show "\<forall>c. Some c \<in> set cs \<longrightarrow> (\<forall>s s'. process_node c s = Inr s' \<longrightarrow> R s s')"
      using IH by blast
  qed
  note run = ASTNode.prems
  show ?case
  proof (cases t rule: node_type_cases)
    case sequence
    from run [unfolded process_node_sequence [OF sequence]] show ?thesis by (rule children)
  next
    case action
    from run [unfolded process_node_action [OF action]] show ?thesis by (rule box_step)
  next
    case if_node
    from run [unfolded if_node] obtain d b s1 tn s2 en s3 where
      op: "if_open (ASTNode ''if_stmt'' v cs) s = Inr (d, b, s1)" and
      tn: "get_child cs 1 = Inr tn" and
      s2: "process_node tn s1 = Inr s2" and
      en: "get_child cs 2 = Inr en" and
      s3: "process_node en (s2\<lparr>last_node := Some d\<rparr>) = Inr s3" and
      cl: "if_else_close d (last_node s2) (b + 1) (last_node s3) (node_count s2 + 1) s3 = Inr s'"
      by (rule process_node_if_stmt_E)
    have "R s1 s2" using IH [OF get_child_in_set [OF tn] s2] .
    moreover have "R (s2\<lparr>last_node := Some d\<rparr>) s3" using IH [OF get_child_in_set [OF en] s3] .
    ultimately show ?thesis using if_step [OF op _ _ cl] by blast
  next
    case while_node
    from run [unfolded while_node] obtain c b s1 body s2 where
      op: "while_open (ASTNode ''while'' v cs) s = Inr (c, b, s1)" and
      body: "get_child cs 1 = Inr body" and
      s2: "process_node body s1 = Inr s2" and
      cl: "while_close c b s2 = Inr s'"
      by (rule process_node_while_E)
    have "R s1 s2" using IH [OF get_child_in_set [OF body] s2] .
    then show ?thesis using while_step [OF op _ cl] by blast
  next
    case for_node
    from run [unfolded for_node] obtain init s1 c b s2 body s3 where
      init: "py_index cs 0 = Inr init" and
      s1: "(case init of None \<Rightarrow> Inr s | Some i \<Rightarrow> process_node i s) = Inr s1" and
      op: "for_open cs s1 = Inr (c, b, s2)" and
      body: "get_child cs 3 = Inr body" and
      s3: "process_node body s2 = Inr s3" and
      cl: "for_close cs c b s3 = Inr s'"
      by (rule process_node_for_E)
    have "R s s1"
    proof (cases init)
      case None
      with s1 show ?thesis by (simp add: refl)
    next
      case (Some i)
      with s1 IH [OF _ , of i s s1] py_index_in_set [OF init] show ?thesis by simp
    qed
    moreover have "R s2 s3" using IH [OF get_child_in_set [OF body] s3] .
    ultimately show ?thesis using for_step [OF _ op _ cl] by blast
  next
    case do_while_node
    from run [unfolded do_while_node] obtain body s1 where
      body: "get_child cs 0 = Inr body" and
      s1: "process_node body s = Inr s1" and
      cl: "do_while_close cs (node_count s) s1 = Inr s'"
      by (rule process_node_do_while_E)
    have "R s s1" using IH [OF get_child_in_set [OF body] s1] .
    then show ?thesis using do_step [OF _ cl] by blast
  next
    case structural
    from run [unfolded process_node_structural [OF structural]] refl [of s] show ?thesis by simp
  next
    case fallback
    from run [unfolded process_node_fallback [OF fallback]] show ?thesis by (rule children)
  qed
qed

text \<open>
  A walk never lowers the node counter, and a walk that allocates no node leaves the
  cursor where it was: every branch that sets the cursor allocates a node first.
\<close>

lemma process_frame:
  assumes "process_node n s = Inr s'"
  shows "node_count s \<le> node_count s' \<and> (node_count s' = node_count s \<longrightarrow> last_node s' = last_node s)"
  using assms
proof (rule process_node_rel [rotated -1])
  fix node d b and s s1 s2 s3 s4 :: fstate
  assume "if_open node s = Inr (d, b, s1)"
    "node_count s1 \<le> node_count s2 \<and> (node_count s2 = node_count s1 \<longrightarrow> last_node s2 = last_node s1)"
    "node_count (s2\<lparr>last_node := Some d\<rparr>) \<le> node_count s3 \<and>
       (node_count s3 = node_count (s2\<lparr>last_node := Some d\<rparr>) \<longrightarrow> last_node s3 = last_node (s2\<lparr>last_node := Some d\<rparr>))"
    "if_else_close d (last_node s2) (b + 1) (last_node s3) (node_count s2 + 1) s3 = Inr s4"
  then show "node_count s \<le> node_count s4 \<and> (node_count s4 = node_count s \<longrightarrow> last_node s4 = last_node s)"
    by (auto simp: if_open_Inr if_else_close_Inr)
next
  fix node c b and s s1 s2 s3 :: fstate
  assume "while_open node s = Inr (c, b, s1)"
    "node_count s1 \<le> node_count s2 \<and> (node_count s2 = node_count s1 \<longrightarrow> last_node s2 = last_node s1)"
    "while_close c b s2 = Inr s3"
  then show "node_count s \<le> node_count s3 \<and> (node_count s3 = node_count s \<longrightarrow> last_node s3 = last_node s)"
    by (auto simp: while_open_Inr while_close_Inr)
next
  fix cs c b and s s1 s2 s3 s4 :: fstate
  assume "node_count s \<le> node_count s1 \<and> (node_count s1 = node_count s \<longrightarrow> last_node s1 = last_node s)"
    "for_open cs s1 = Inr (c, b, s2)"
    "node_count s2 \<le> node_count s3 \<and> (node_count s3 = node_count s2 \<longrightarrow> last_node s3 = last_node s2)"
    "for_close cs c b s3 = Inr s4"
  then show "node_count s \<le> node_count s4 \<and> (node_count s4 = node_count s \<longrightarrow> last_node s4 = last_node s)"
    by (auto simp: for_open_Inr dest!: for_close_Inr)
next
  fix cs and s s1 s2 :: fstate
  assume "node_count s \<le> node_count s1 \<and> (node_count s1 = node_count s \<longrightarrow> last_node s1 = last_node s)"
    "do_while_close cs (node_count s) s1 = Inr s2"
  then show "node_count s \<le> node_count s2 \<and> (node_count s2 = node_count s \<longrightarrow> last_node s2 = last_node s)"
    by (auto simp: do_while_close_Inr)
qed (auto simp: process_box_Inr)

text \<open>A walk only appends to the list of edges.\<close>

lemma process_edges_prefix:
  assumes "process_node n s = Inr s'"
  shows "\<exists>es. edges s' = edges s @ es"
  using assms
  by (rule process_node_rel [rotated -1])
     (auto simp: process_box_Inr if_open_Inr while_open_Inr for_open_Inr while_close_Inr
        if_else_close_Inr do_while_close_Inr dest!: for_close_Inr)

text \<open>The invariant is kept by every walk that returns.\<close>

lemma wf_extend:
  assumes "wf_state s" and "node_count s \<le> node_count s'"
    and "case last_node s' of None \<Rightarrow> True | Some l \<Rightarrow> l \<le> node_count s'"
    and "edges s' = edges s @ es"
    and "\<forall>e\<in>set es. fst e \<le> node_count s' \<and> 2 \<le> fst (snd e)"
    and "nodes s' = nodes s @ ns"
    and "\<forall>n\<in>set ns. node_count s < fst n \<and> fst n \<le> node_count s' \<and> snd (snd n) \<noteq> oval"
    and "distinct (map fst ns)"
  shows "wf_state s'"
  using assms unfolding wf_state_def ovals_def list_all_iff
  by (intro conjI) (simp, simp, fastforce, fastforce, fastforce, simp)

lemma wf_last_edge:
  "wf_state s \<Longrightarrow> e \<in> set (last_edge s (node_count s + 1)) \<Longrightarrow>
   fst e \<le> node_count s \<and> fst (snd e) = node_count s + 1"
  by (auto simp: wf_state_def last_edge_def split: option.splits)

lemma wf_last_node: "wf_state s \<Longrightarrow> last_node s = Some l \<Longrightarrow> l \<le> node_count s"
  by (simp add: wf_state_def)

lemma wf_open:
  assumes "wf_state s" and "shp \<noteq> oval"
    and "case l of None \<Rightarrow> True | Some x \<Rightarrow> x \<le> node_count s + 1"
  shows "wf_state (s\<lparr>node_count := node_count s + 1, last_node := l,
               nodes := nodes s @ [(node_count s + 1, label, shp)],
               edges := edges s @ last_edge s (node_count s + 1)\<rparr>)"
proof (rule wf_extend [OF assms(1), where es = "last_edge s (node_count s + 1)"
      and ns = "[(node_count s + 1, label, shp)]"])
  show "\<forall>e\<in>set (last_edge s (node_count s + 1)).
      fst e \<le> node_count (s\<lparr>node_count := node_count s + 1, last_node := l,
               nodes := nodes s @ [(node_count s + 1, label, shp)],
               edges := edges s @ last_edge s (node_count s + 1)\<rparr>) \<and> 2 \<le> fst (snd e)"
    using wf_last_edge [OF assms(1)] assms(1) by (fastforce simp: wf_state_def)
qed (use assms in \<open>auto split: option.splits\<close>)

lemmas wf_open_Suc = wf_open [unfolded Suc_eq_plus1 [symmetric]]

lemma wf_set_last: "wf_state s \<Longrightarrow> d \<le> node_count s \<Longrightarrow> wf_state (s\<lparr>last_node := Some d\<rparr>)"
  by (simp add: wf_state_def ovals_def)

lemma process_wf:
  assumes "process_node n s = Inr s'"
  shows "wf_state s \<longrightarrow> wf_state s' \<and> node_count s \<le> node_count s'"
  using assms
proof (rule process_node_rel [rotated -1])
  fix node and s s' :: fstate
  assume "process_box node s = Inr s'"
  then show "wf_state s \<longrightarrow> wf_state s' \<and> node_count s \<le> node_count s'"
    by (auto simp: process_box_Inr intro!: wf_open_Suc)
next
  fix node d b and s s1 s2 s3 s4 :: fstate
  assume op: "if_open node s = Inr (d, b, s1)"
    and r1: "wf_state s1 \<longrightarrow> wf_state s2 \<and> node_count s1 \<le> node_count s2"
    and r2: "wf_state (s2\<lparr>last_node := Some d\<rparr>) \<longrightarrow>
          wf_state s3 \<and> node_count (s2\<lparr>last_node := Some d\<rparr>) \<le> node_count s3"
    and cl: "if_else_close d (last_node s2) (b + 1) (last_node s3) (node_count s2 + 1) s3 = Inr s4"
  show "wf_state s \<longrightarrow> wf_state s4 \<and> node_count s \<le> node_count s4"
  proof
    assume wf: "wf_state s"
    from op wf have wf1: "wf_state s1"
      by (auto simp: if_open_Inr intro!: wf_open_Suc)
    from op have d: "d = node_count s + 1" "b = node_count s + 1"
      and c1: "node_count s1 = node_count s + 1"
      by (auto simp: if_open_Inr)
    from r1 wf1 have wf2: "wf_state s2" and c2: "node_count s1 \<le> node_count s2" by auto
    from wf2 d c1 c2 have "wf_state (s2\<lparr>last_node := Some d\<rparr>)"
      by (intro wf_set_last) auto
    with r2 have wf3: "wf_state s3" and c3: "node_count s2 \<le> node_count s3" by auto
    from cl obtain a e where te: "last_node s2 = Some a" and ee: "last_node s3 = Some e"
      and s4: "s4 = s3\<lparr>node_count := node_count s3 + 1, last_node := Some (node_count s3 + 1),
               merge_stack := merge_stack s3 @ [node_count s3 + 1],
               nodes := nodes s3 @ [(node_count s3 + 1, Some '''', point)],
               edges := edges s3 @ [(a, node_count s3 + 1, None), (e, node_count s3 + 1, None),
                                   (d, b + 1, Some ''true''), (d, node_count s2 + 1, Some ''false'')]\<rparr>"
      by (auto simp: if_else_close_Inr)
    from wf_last_node [OF wf2 te] have a: "a \<le> node_count s2" .
    from wf_last_node [OF wf3 ee] have e: "e \<le> node_count s3" .
    have "wf_state s4"
      unfolding s4
      by (rule wf_extend [OF wf3, where
            es = "[(a, node_count s3 + 1, None), (e, node_count s3 + 1, None),
                   (d, b + 1, Some ''true''), (d, node_count s2 + 1, Some ''false'')]"
            and ns = "[(node_count s3 + 1, Some '''', point)]"])
         (use a e d c1 c2 c3 in auto)
    moreover from s4 c1 c2 c3 have "node_count s \<le> node_count s4" by simp
    ultimately show "wf_state s4 \<and> node_count s \<le> node_count s4" ..
  qed
next
  fix node c b and s s1 s2 s3 :: fstate
  assume op: "while_open node s = Inr (c, b, s1)"
    and r1: "wf_state s1 \<longrightarrow> wf_state s2 \<and> node_count s1 \<le> node_count s2"
    and cl: "while_close c b s2 = Inr s3"
  show "wf_state s \<longrightarrow> wf_state s3 \<and> node_count s \<le> node_count s3"
  proof
    assume wf: "wf_state s"
    from op wf have wf1: "wf_state s1"
      by (auto simp: while_open_Inr intro!: wf_open_Suc)
    from op have c: "c = node_count s + 1" "b = node_count s + 1"
      and c1: "node_count s1 = node_count s + 1"
      by (auto simp: while_open_Inr)
    from r1 wf1 have wf2: "wf_state s2" and c2: "node_count s1 \<le> node_count s2" by auto
    from cl obtain e where e: "last_node s2 = Some e"
      and s3: "s3 = s2\<lparr>node_count := node_count s2 + 1, last_node := Some (node_count s2 + 1),
               nodes := nodes s2 @ [(node_count s2 + 1, Some '''', point)],
               edges := edges s2 @ [(c, b + 1, Some ''true''), (e, c, None),
                                   (c, node_count s2 + 1, Some ''false'')]\<rparr>"
      by (auto simp: while_close_Inr)
    from wf_last_node [OF wf2 e] have e': "e \<le> node_count s2" .
    from wf have one: "1 \<le> node_count s" by (simp add: wf_state_def)
    have "wf_state s3"
      unfolding s3
      by (rule wf_extend [OF wf2, where
            es = "[(c, b + 1, Some ''true''), (e, c, None), (c, node_count s2 + 1, Some ''false'')]"
            and ns = "[(node_count s2 + 1, Some '''', point)]"])
         (use e' c c1 c2 one in auto)
    moreover from s3 c1 c2 have "node_count s \<le> node_count s3" by simp
    ultimately show "wf_state s3 \<and> node_count s \<le> node_count s3" ..
  qed
next
  fix cs c b and s s1 s2 s3 s4 :: fstate
  assume r0: "wf_state s \<longrightarrow> wf_state s1 \<and> node_count s \<le> node_count s1"
    and op: "for_open cs s1 = Inr (c, b, s2)"
    and r1: "wf_state s2 \<longrightarrow> wf_state s3 \<and> node_count s2 \<le> node_count s3"
    and cl: "for_close cs c b s3 = Inr s4"
  show "wf_state s \<longrightarrow> wf_state s4 \<and> node_count s \<le> node_count s4"
  proof
    assume wf: "wf_state s"
    with r0 have wf1: "wf_state s1" and c0: "node_count s \<le> node_count s1" by auto
    from op wf1 have wf2: "wf_state s2"
      by (auto simp: for_open_Inr intro!: wf_open_Suc)
    from op have c: "c = node_count s1 + 1" "b = node_count s1 + 1"
      and c2: "node_count s2 = node_count s1 + 1"
      by (auto simp: for_open_Inr)
    from r1 wf2 have wf3: "wf_state s3" and c3: "node_count s2 \<le> node_count s3" by auto
    from for_close_Inr [OF cl] obtain e where e: "last_node s3 = Some e"
      and s4: "s4 = s3\<lparr>node_count := node_count s3 + 1, last_node := Some (node_count s3 + 1),
               nodes := nodes s3 @ [(node_count s3 + 1, Some '''', point)],
               edges := edges s3 @ [(c, b + 1, Some ''true''), (e, c, None),
                                   (c, node_count s3 + 1, Some ''false'')]\<rparr>
        \<or> (\<exists>label. s4 = s3\<lparr>node_count := node_count s3 + 2, last_node := Some (node_count s3 + 2),
                   nodes := nodes s3 @ [(node_count s3 + 1, label, box),
                                       (node_count s3 + 2, Some '''', point)],
                   edges := edges s3 @ [(c, b + 1, Some ''true''), (e, node_count s3 + 1, None),
                                       (node_count s3 + 1, c, None),
                                       (c, node_count s3 + 2, Some ''false'')]\<rparr>)"
      by blast
    from wf_last_node [OF wf3 e] have e': "e \<le> node_count s3" .
    from wf1 have one: "1 \<le> node_count s1" by (simp add: wf_state_def)
    from s4 show "wf_state s4 \<and> node_count s \<le> node_count s4"
    proof (elim disjE exE)
      assume s4: "s4 = s3\<lparr>node_count := node_count s3 + 1, last_node := Some (node_count s3 + 1),
               nodes := nodes s3 @ [(node_count s3 + 1, Some '''', point)],
               edges := edges s3 @ [(c, b + 1, Some ''true''), (e, c, None),
                                   (c, node_count s3 + 1, Some ''false'')]\<rparr>"
      have "wf_state s4"
        unfolding s4
        by (rule wf_extend [OF wf3, where
              es = "[(c, b + 1, Some ''true''), (e, c, None), (c, node_count s3 + 1, Some ''false'')]"
              and ns = "[(node_count s3 + 1, Some '''', point)]"])
           (use e' c c2 c3 one in auto)
      moreover from s4 c0 c2 c3 have "node_count s \<le> node_count s4" by simp
      ultimately show ?thesis ..
    next
      fix label
      assume s4: "s4 = s3\<lparr>node_count := node_count s3 + 2, last_node := Some (node_count s3 + 2),
                   nodes := nodes s3 @ [(node_count s3 + 1, label, box),
                                       (node_count s3 + 2, Some '''', point)],
                   edges := edges s3 @ [(c, b + 1, Some ''true''), (e, node_count s3 + 1, None),
                                       (node_count s3 + 1, c, None),
                                       (c, node_count s3 + 2, Some ''false'')]\<rparr>"
      have "wf_state s4"
        unfolding s4
        by (rule wf_extend [OF wf3, where
              es = "[(c, b + 1, Some ''true''), (e, node_count s3 + 1, None),
                     (node_count s3 + 1, c, None), (c, node_count s3 + 2, Some ''false'')]"
              and ns = "[(node_count s3 + 1, label, box), (node_count s3 + 2, Some '''', point)]"])
           (use e' c c2 c3 one in auto)
      moreover from s4 c0 c2 c3 have "node_count s \<le> node_count s4" by simp
      ultimately show ?thesis ..
    qed
  qed
next
  fix cs and s s1 s2 :: fstate
  assume r0: "wf_state s \<longrightarrow> wf_state s1 \<and> node_count s \<le> node_count s1"
    and cl: "do_while_close cs (node_count s) s1 = Inr s2"
  show "wf_state s \<longrightarrow> wf_state s2 \<and> node_count s \<le> node_count s2"
  proof
    assume wf: "wf_state s"
    with r0 have wf1: "wf_state s1" and c0: "node_count s \<le> node_count s1" by auto
    from cl obtain e label where e: "last_node s1 = Some e"
      and s2: "s2 = s1\<lparr>node_count := node_count s1 + 2, last_node := Some (node_count s1 + 2),
               nodes := nodes s1 @ [(node_count s1 + 1, Some (''while ('' @ str label @ '')''), diamond),
                                   (node_count s1 + 2, Some '''', point)],
               edges := edges s1 @ [(e, node_count s1 + 1, None),
                                   (node_count s1 + 1, node_count s + 1, Some ''true''),
                                   (node_count s1 + 1, node_count s1 + 2, Some ''false'')]\<rparr>"
      by (auto simp: do_while_close_Inr)
    from wf_last_node [OF wf1 e] have e': "e \<le> node_count s1" .
    from wf have one: "1 \<le> node_count s" by (simp add: wf_state_def)
    have "wf_state s2"
      unfolding s2
      by (rule wf_extend [OF wf1, where
            es = "[(e, node_count s1 + 1, None), (node_count s1 + 1, node_count s + 1, Some ''true''),
                   (node_count s1 + 1, node_count s1 + 2, Some ''false'')]"
            and ns = "[(node_count s1 + 1, Some (''while ('' @ str label @ '')''), diamond),
                       (node_count s1 + 2, Some '''', point)]"])
         (use e' c0 one in auto)
    moreover from s2 c0 have "node_count s \<le> node_count s2" by simp
    ultimately show "wf_state s2 \<and> node_count s \<le> node_count s2" ..
  qed
qed auto

section \<open>The flowchart of branches and loops\<close>

lemma parse_while_program: "parse 30 while_program = Inr (main_ast [Some while_stmt_ast])"
  by code_simp

lemma parse_do_while_program: "parse 30 do_while_program = Inr (main_ast [Some do_while_stmt_ast])"
  by code_simp

lemma parse_empty_while_program:
  "parse 30 empty_while_program = Inr (main_ast [Some empty_while_stmt_ast])"
  by code_simp

lemma parse_empty_for_program:
  "parse 30 empty_for_program = Inr (main_ast [Some empty_for_stmt_ast])"
  by code_simp

lemma wf_start_state: "wf_state start_state"
  by (simp add: wf_state_def start_state_def ovals_def)

lemma generate_eq:
  "generate ast =
     (case process_node ast start_state of
        Inl e \<Rightarrow> Inl e
      | Inr s1 \<Rightarrow>
          Inr (s1\<lparr>node_count := node_count s1 + 1,
                  nodes := nodes s1 @ [(node_count s1 + 1, Some ''End'', oval)],
                  edges := edges s1 @ last_edge s1 (node_count s1 + 1)\<rparr>))"
  by (simp add: generate_def new_node_id_def dot_node_def start_state_def edge_from_last_eq
      last_edge_def split: sum.splits)

text \<open>
  Claim C7. A graph that \<open>generate\<close> returns has exactly two ovals: the node labelled
  "Start", which is the first identifier, and the node labelled "End", which is the
  last identifier given out. Identifiers are given out once, no edge ends at the start
  oval and no edge leaves the end oval.
\<close>

theorem start_and_end_ovals:
  assumes "generate ast = Inr g"
  shows "ovals g = [(1, Some ''Start'', oval), (node_count g, Some ''End'', oval)]
    \<and> 1 < node_count g \<and> distinct (map fst (nodes g))
    \<and> in_edges g 1 = [] \<and> out_edges g (node_count g) = []"
proof -
  from assms obtain s1 where run: "process_node ast start_state = Inr s1"
    and g: "g = s1\<lparr>node_count := node_count s1 + 1,
                  nodes := nodes s1 @ [(node_count s1 + 1, Some ''End'', oval)],
                  edges := edges s1 @ last_edge s1 (node_count s1 + 1)\<rparr>"
    by (auto simp: generate_eq split: sum.splits)
  from process_wf [OF run] wf_start_state have wf: "wf_state s1" by simp
  then have one: "1 \<le> node_count s1"
    and edges: "\<forall>e\<in>set (edges s1). fst e \<le> node_count s1 \<and> 2 \<le> fst (snd e)"
    and ids: "\<forall>n\<in>set (nodes s1). fst n \<le> node_count s1"
    and dist: "distinct (map fst (nodes s1))"
    and ov: "ovals s1 = [(1, Some ''Start'', oval)]"
    by (simp_all add: wf_state_def list_all_iff)
  have last: "\<forall>e\<in>set (last_edge s1 (node_count s1 + 1)).
      fst e \<le> node_count s1 \<and> fst (snd e) = node_count s1 + 1"
    using wf_last_edge [OF wf] by blast
  have "ovals g = [(1, Some ''Start'', oval), (node_count g, Some ''End'', oval)]"
    using ov by (simp add: g ovals_def)
  moreover have "1 < node_count g" using one by (simp add: g)
  moreover have "distinct (map fst (nodes g))" using dist ids by (fastforce simp: g)
  moreover have "in_edges g 1 = []"
    using edges last one by (fastforce simp: g in_edges_def filter_empty_conv)
  moreover have "out_edges g (node_count g) = []"
    using edges last by (fastforce simp: g out_edges_def filter_empty_conv)
  ultimately show ?thesis by blast
qed

theorem start_and_end_ovals_witness:
  "generate (main_ast [Some while_stmt_ast]) = Inr while_graph
   \<and> ovals while_graph = [(1, Some ''Start'', oval), (5, Some ''End'', oval)]
   \<and> in_edges while_graph 1 = [] \<and> out_edges while_graph 5 = []"
proof -
  have g: "generate (main_ast [Some while_stmt_ast]) = Inr while_graph"
    by code_simp
  have "node_count while_graph = 5" by (simp add: while_graph_def)
  with start_and_end_ovals [OF g] g show ?thesis by simp
qed

text \<open>
  Claim C9. A \<^verbatim>\<open>while\<close> or \<^verbatim>\<open>for\<close> statement whose body allocates no node makes the walk
  fail: the cursor is cleared before the body, a walk that allocates nothing leaves it
  cleared, and the back edge is then drawn from no node.
\<close>

theorem loop_with_silent_body_faults:
  assumes "\<forall>s1 s2. process_node body s1 = Inr s2 \<longrightarrow> node_count s2 = node_count s1"
  shows "isl (process_node (ASTNode ''while'' v [cond, Some body]) s)
    \<and> isl (process_node (ASTNode ''for'' v [init, cond, upd, Some body]) s)"
proof
  show "isl (process_node (ASTNode ''while'' v [cond, Some body]) s)"
  proof (cases "process_node (ASTNode ''while'' v [cond, Some body]) s")
    case (Inr s')
    then obtain c b s1 body' s2 where
      op: "while_open (ASTNode ''while'' v [cond, Some body]) s = Inr (c, b, s1)" and
      body: "get_child [cond, Some body] 1 = Inr body'" and
      s2: "process_node body' s1 = Inr s2" and
      cl: "while_close c b s2 = Inr s'"
      by (rule process_node_while_E)
    from body have "body' = body" by (simp add: get_child_def py_index_def)
    with s2 assms have "node_count s2 = node_count s1" by blast
    with process_frame [OF s2] have "last_node s2 = last_node s1" by simp
    moreover from op have "last_node s1 = None" by (auto simp: while_open_Inr)
    ultimately show ?thesis using cl by (simp add: while_close_Inr)
  qed simp
  show "isl (process_node (ASTNode ''for'' v [init, cond, upd, Some body]) s)"
  proof (cases "process_node (ASTNode ''for'' v [init, cond, upd, Some body]) s")
    case (Inr s')
    then obtain i s1 c b s2 body' s3 where
      op: "for_open [init, cond, upd, Some body] s1 = Inr (c, b, s2)" and
      body: "get_child [init, cond, upd, Some body] 3 = Inr body'" and
      s3: "process_node body' s2 = Inr s3" and
      cl: "for_close [init, cond, upd, Some body] c b s3 = Inr s'"
      by (rule process_node_for_E)
    from body have "body' = body" by (simp add: get_child_def py_index_def)
    with s3 assms have "node_count s3 = node_count s2" by blast
    with process_frame [OF s3] have "last_node s3 = last_node s2" by simp
    moreover from op have "last_node s2 = None" by (auto simp: for_open_Inr)
    ultimately show ?thesis using for_close_Inr [OF cl] by simp
  qed simp
qed

theorem loop_with_silent_body_faults_witness:
  "process_node (ASTNode ''compound_stmt'' None []) start_state = Inr start_state
   \<and> isl (process_node empty_while_stmt_ast start_state)
   \<and> isl (process_node empty_for_stmt_ast start_state)
   \<and> generate (main_ast [Some empty_while_stmt_ast]) = Inl AttributeError
   \<and> generate (main_ast [Some empty_for_stmt_ast]) = Inl AttributeError"
proof -
  have silent: "\<forall>s1 s2. process_node (ASTNode ''compound_stmt'' None []) s1 = Inr s2 \<longrightarrow>
       node_count s2 = node_count s1"
    by simp
  have "generate (main_ast [Some empty_while_stmt_ast]) = Inl AttributeError"
    by code_simp
  moreover have "generate (main_ast [Some empty_for_stmt_ast]) = Inl AttributeError"
    by code_simp
  moreover have "process_node (ASTNode ''compound_stmt'' None []) start_state = Inr start_state"
    by simp
  ultimately show ?thesis
    using loop_with_silent_body_faults [OF silent, of None _ start_state]
    unfolding empty_while_stmt_ast_def empty_for_stmt_ast_def
    by blast
qed

text \<open>
  Claim C1. The branch of an \<^verbatim>\<open>if\<close> without \<^verbatim>\<open>else\<close> never returns: after the true edge
  it reads the unbound name \<^verbatim>\<open>mergerId\<close>, so no false edge is drawn and no graph is built
  for \<^verbatim>\<open>int main() { if (x > 0) { y = 1; } }\<close>. With an \<^verbatim>\<open>else\<close> the graph is built, and
  the diamond of \<^verbatim>\<open>int main() { if (x > 0) { y = 1; } else { y = 2; } }\<close> has four outgoing
  edges: the two unlabelled ones drawn from the cursor into the first node of each
  branch, and the two labelled ones.
\<close>

theorem if_diamond_edges_observed:
  "isl (process_node (ASTNode ''if_stmt'' v [cond, then_branch]) s)
   \<and> flowchart_tokens 30 if_without_else_program = Inl (NameError ''mergerId'')
   \<and> map_sum id (\<lambda>g. out_edges g 2) (flowchart_tokens 30 if_else_program) =
       Inr [(2, 3, None), (2, 4, None), (2, 3, Some ''true''), (2, 4, Some ''false'')]"
proof (intro conjI)
  show "isl (process_node (ASTNode ''if_stmt'' v [cond, then_branch]) s)"
  proof (cases "process_node (ASTNode ''if_stmt'' v [cond, then_branch]) s")
    case (Inr s')
    then have "length [cond, then_branch] = 3" by (rule process_node_if_stmt_E)
    then show ?thesis by simp
  qed simp
  show "flowchart_tokens 30 if_without_else_program = Inl (NameError ''mergerId'')"
    by code_simp
  show "map_sum id (\<lambda>g. out_edges g 2) (flowchart_tokens 30 if_else_program) =
       Inr [(2, 3, None), (2, 4, None), (2, 3, Some ''true''), (2, 4, Some ''false'')]"
    by code_simp
qed

text \<open>
  Claim C2, as stated, fails: in the graph of \<^verbatim>\<open>int main() { do { x = 1; } while (x < 5); }\<close>
  the entry of the body, node 2, has an incoming edge from the start oval, the node that
  came before the loop.
\<close>

theorem do_while_predecessor_edge_counterexample:
  "generate (main_ast [Some do_while_stmt_ast]) = Inr do_while_graph
   \<and> in_edges do_while_graph 2 = [(1, 2, None), (3, 2, Some ''true'')]
   \<and> take 2 (nodes do_while_graph) = [(1, Some ''Start'', oval), (2, Some ''x = 1'', box)]"
  by code_simp

text \<open>
  Claim C2, amended. A \<^verbatim>\<open>do_while\<close> node walks its body first, from the state it was
  given, cursor included; the walk of the body must leave a cursor. Then the diamond is
  allocated and edged from the exit of the body, its true edge goes to the identifier
  that follows the counter as it was before the body, and its false edge to a new merge
  point, which becomes the cursor. When the cursor was set and the body is a block that
  starts with an action statement, the first node of the body has an edge from the
  node that came before the loop.
\<close>

theorem do_while_walks_body_from_cursor:
  assumes "process_node (ASTNode ''do_while'' v cs) s = Inr s'"
  shows "\<exists>body s1 e label.
      get_child cs 0 = Inr body \<and> process_node body s = Inr s1 \<and> last_node s1 = Some e \<and>
      s' = s1\<lparr>node_count := node_count s1 + 2, last_node := Some (node_count s1 + 2),
              nodes := nodes s1 @ [(node_count s1 + 1, Some (''while ('' @ str label @ '')''), diamond),
                                  (node_count s1 + 2, Some '''', point)],
              edges := edges s1 @ [(e, node_count s1 + 1, None),
                                  (node_count s1 + 1, node_count s + 1, Some ''true''),
                                  (node_count s1 + 1, node_count s1 + 2, Some ''false'')]\<rparr> \<and>
      (\<forall>p bv first rest.
          last_node s = Some p \<and> body = ASTNode ''compound_stmt'' bv (Some first # rest) \<and>
          ntype first \<in> {''var_decl'', ''assign'', ''return_stmt'', ''stmt''} \<longrightarrow>
          (p, node_count s + 1, None) \<in> set (edges s'))"
proof -
  from assms obtain body s1 where
    body: "get_child cs 0 = Inr body" and
    s1: "process_node body s = Inr s1" and
    cl: "do_while_close cs (node_count s) s1 = Inr s'"
    by (rule process_node_do_while_E)
  from cl obtain e label where e: "last_node s1 = Some e"
    and s': "s' = s1\<lparr>node_count := node_count s1 + 2, last_node := Some (node_count s1 + 2),
              nodes := nodes s1 @ [(node_count s1 + 1, Some (''while ('' @ str label @ '')''), diamond),
                                  (node_count s1 + 2, Some '''', point)],
              edges := edges s1 @ [(e, node_count s1 + 1, None),
                                  (node_count s1 + 1, node_count s + 1, Some ''true''),
                                  (node_count s1 + 1, node_count s1 + 2, Some ''false'')]\<rparr>"
    by (auto simp: do_while_close_Inr)
  have pred: "(p, node_count s + 1, None) \<in> set (edges s')"
    if p: "last_node s = Some p"
      and shape: "body = ASTNode ''compound_stmt'' bv (Some first # rest)"
      and act: "ntype first \<in> {''var_decl'', ''assign'', ''return_stmt'', ''stmt''}"
    for p bv first rest
  proof -
    from s1 shape have "process_children (Some first # rest) s = Inr s1" by simp
    then obtain sa where sa: "process_node first s = Inr sa"
      and rest: "process_children rest sa = Inr s1"
      by (auto split: sum.splits)
    obtain ft fv fcs where first: "first = ASTNode ft fv fcs" by (cases first)
    with act have "process_node first s = process_box first s"
      using process_node_action [of ft fv fcs s] by simp
    with sa p have "(p, node_count s + 1, None) \<in> set (edges sa)"
      by (auto simp: process_box_Inr last_edge_def)
    moreover from rest have "process_node (ASTNode ''compound_stmt'' None rest) sa = Inr s1"
      by simp
    from process_edges_prefix [OF this] obtain es where "edges s1 = edges sa @ es" ..
    ultimately show ?thesis by (simp add: s')
  qed
  from body s1 e s' pred show ?thesis by blast
qed

theorem do_while_walks_body_from_cursor_witness:
  "process_node do_while_stmt_ast start_state =
     Inr \<lparr>node_count = 4, last_node = Some 4, merge_stack = [],
          nodes = [(1, Some ''Start'', oval), (2, Some ''x = 1'', box),
                   (3, Some ''while (x < 5)'', diamond), (4, Some '''', point)],
          edges = [(1, 2, None), (2, 3, None), (3, 2, Some ''true''), (3, 4, Some ''false'')]\<rparr>
   \<and> (\<exists>body s1. get_child (children do_while_stmt_ast) 0 = Inr body \<and>
         process_node body start_state = Inr s1 \<and> last_node s1 = Some 2)"
proof -
  have run: "process_node do_while_stmt_ast start_state =
     Inr \<lparr>node_count = 4, last_node = Some 4, merge_stack = [],
          nodes = [(1, Some ''Start'', oval), (2, Some ''x = 1'', box),
                   (3, Some ''while (x < 5)'', diamond), (4, Some '''', point)],
          edges = [(1, 2, None), (2, 3, None), (3, 2, Some ''true''), (3, 4, Some ''false'')]\<rparr>"
    by code_simp
  have ast: "do_while_stmt_ast = ASTNode ''do_while'' None (children do_while_stmt_ast)"
    by (simp add: do_while_stmt_ast_def)
  from run ast have "process_node (ASTNode ''do_while'' None (children do_while_stmt_ast)) start_state =
     Inr \<lparr>node_count = 4, last_node = Some 4, merge_stack = [],
          nodes = [(1, Some ''Start'', oval), (2, Some ''x = 1'', box),
                   (3, Some ''while (x < 5)'', diamond), (4, Some '''', point)],
          edges = [(1, 2, None), (2, 3, None), (3, 2, Some ''true''), (3, 4, Some ''false'')]\<rparr>"
    by simp
  from do_while_walks_body_from_cursor [OF this] obtain body s1 e label where
    "get_child (children do_while_stmt_ast) 0 = Inr body" "process_node body start_state = Inr s1"
    "last_node s1 = Some e"
    "\<lparr>node_count = 4, last_node = Some 4, merge_stack = [],
          nodes = [(1, Some ''Start'', oval), (2, Some ''x = 1'', box),
                   (3, Some ''while (x < 5)'', diamond), (4, Some '''', point)],
          edges = [(1, 2, None), (2, 3, None), (3, 2, Some ''true''), (3, 4, Some ''false'')]\<rparr>
      = s1\<lparr>node_count := node_count s1 + 2, last_node := Some (node_count s1 + 2),
              nodes := nodes s1 @ [(node_count s1 + 1, Some (''while ('' @ str label @ '')''), diamond),
                                  (node_count s1 + 2, Some '''', point)],
              edges := edges s1 @ [(e, node_count s1 + 1, None),
                                  (node_count s1 + 1, node_count start_state + 1, Some ''true''),
                                  (node_count s1 + 1, node_count s1 + 2, Some ''false'')]\<rparr>"
    by blast
  moreover from this(4) have "e = 2"
    by (cases s1) auto
  ultimately show ?thesis using run by blast
qed

section \<open>Statements that start with an identifier\<close>

lemma gather_eq:
  "gather ts acc = (acc @ map tvalue (takeWhile in_statement ts), dropWhile in_statement ts)"
  by (induction ts arbitrary: acc) (auto simp: in_statement_def)

lemma generic_stmt_eq:
  "generic_stmt ts =
     Inr (ASTNode ''stmt'' (Some (strip (join '' '' (map tvalue (upto_semicolon ts))))) [],
          after_semicolon ts)"
proof -
  define pre where "pre = takeWhile in_statement ts"
  define post where "post = dropWhile in_statement ts"
  have "gather ts [] = (map tvalue pre, post)"
    by (simp add: gather_eq pre_def post_def)
  then show ?thesis
    unfolding generic_stmt_def upto_semicolon_def after_semicolon_def
      pre_def [symmetric] post_def [symmetric]
    by (cases post) (simp_all add: eat_def cur_type_def)
qed

text \<open>
  Claim C5, as stated, fails: the value of the generic statement node is not the
  concatenation of the token texts. For \<^verbatim>\<open>cin >> x;\<close> the node holds \<^verbatim>\<open>cin >> x ;\<close>.
\<close>

theorem generic_statement_text_counterexample:
  "stmt 1 opaque_statement = Inr (ASTNode ''stmt'' (Some ''cin >> x ;'') [], [])
   \<and> concat (map tvalue opaque_statement) = ''cin>>x;''
   \<and> ''cin >> x ;'' \<noteq> concat (map tvalue opaque_statement)"
  by code_simp

text \<open>
  Claim C5, amended. A statement that starts with an identifier looks at the one token
  after it: when that token is the operator \<^verbatim>\<open>=\<close> the statement is parsed as an
  assignment; otherwise the result is a \<^verbatim>\<open>stmt\<close> node without children whose value is the
  texts of the tokens from the identifier up to and including the next semicolon (up to
  the end of the input when there is none), joined by single spaces and stripped, and
  the parser continues after those tokens.
\<close>

theorem stmt_identifier_lookahead:
  "stmt (Suc fuel) (tk ID name # ts) =
     (if is_op (take 1 ts) [''=''] then assign_stmt fuel (tk ID name # ts)
      else Inr (ASTNode ''stmt''
                  (Some (strip (join '' '' (map tvalue (upto_semicolon (tk ID name # ts)))))) [],
                after_semicolon (tk ID name # ts)))"
proof -
  have "is_op (take 1 ts) [''=''] = is_op ts [''='']"
    by (cases ts) (simp_all add: is_op_def cur_type_def cur_value_def)
  then show ?thesis
    by (simp add: cur_type_def tk_def generic_stmt_eq)
qed

section \<open>Tokens after the function body\<close>

text \<open>
  A rule that has returned, leaving at least one token, returns the same node when more
  tokens follow the input: it never looked past the first token it left.
\<close>

lemma eat_Inr: "eat t ts = Inr (tok, rest) \<longleftrightarrow> ts = tok # rest \<and> ttype tok = t"
  by (auto simp: eat_def split: list.splits)

lemma cur_type_append: "cur_type (ts @ ex) = (if ts = [] then cur_type ex else cur_type ts)"
  by (cases ts) (simp_all add: cur_type_def)

lemma cur_type_Cons [simp]: "cur_type (t # ts) = ttype t"
  by (simp add: cur_type_def)

lemma is_op_append: "is_op (ts @ ex) ops = (if ts = [] then is_op ex ops else is_op ts ops)"
  by (cases ts) (simp_all add: is_op_def cur_type_def cur_value_def)

lemma is_op_Cons [simp]: "is_op (t # ts) ops = (ttype t = OP \<and> tvalue t \<in> set ops)"
  by (auto simp: is_op_def cur_type_def cur_value_def)

lemma is_op_Nil [simp]: "\<not> is_op [] ops"
  by (simp add: is_op_def cur_type_def)

lemma type_spec_Inr:
  "type_spec ts = Inr (n, rest) \<longleftrightarrow>
     (\<exists>tok. ts = tok # rest \<and> ttype tok = INT_KW \<and> n = ASTNode ''type'' (Some (tvalue tok)) [])"
  by (auto simp: type_spec_def eat_def split: sum.splits list.splits if_splits)

lemma parse_expr_Nil:
  "parse_expr fuel r [] = Inr (n, rest) \<Longrightarrow> rest = [] \<and> (\<exists>node. r = ArithLoop node \<or> r = TermLoop node)"
proof (induction fuel arbitrary: r n rest)
  case 0
  then show ?case by simp
next
  case (Suc fuel)
  then show ?case
    by (cases r) (auto simp: eat_Inr cur_type_def split: sum.splits if_splits)
qed

lemma parse_expr_append:
  "parse_expr fuel r ts = Inr (n, rest) \<Longrightarrow> rest \<noteq> [] \<Longrightarrow>
   parse_expr fuel r (ts @ ex) = Inr (n, rest @ ex)"
proof (induction fuel arbitrary: r ts n rest)
  case 0
  then show ?case by simp
next
  case (Suc fuel)
  note IH = Suc.IH and run = Suc.prems(1) and ne = Suc.prems(2)
  show ?case
  proof (cases r)
    case Expr
    from run Expr obtain node ts1 where
      a: "parse_expr fuel ArithExpr ts = Inr (node, ts1)"
      by (auto split: sum.splits)
    show ?thesis
    proof (cases "is_op ts1 [''<'', ''>'', ''=='', ''!='', ''<='', ''>='']")
      case True
      with run Expr a obtain op_tok ts2 rhs where
        ts1: "ts1 = op_tok # ts2" and
        b: "parse_expr fuel ArithExpr ts2 = Inr (rhs, rest)" and
        n: "n = ASTNode ''comparison'' (Some (tvalue op_tok)) [Some node, Some rhs]"
        by (auto simp: eat_Inr split: sum.splits)
      from IH [OF a] ts1 have "parse_expr fuel ArithExpr (ts @ ex) = Inr (node, ts1 @ ex)" by simp
      moreover from IH [OF b ne] have "parse_expr fuel ArithExpr (ts2 @ ex) = Inr (rhs, rest @ ex)" .
      ultimately show ?thesis using Expr True ts1 n by (simp add: is_op_append eat_Inr eat_def)
    next
      case False
      with run Expr a have eq: "n = node" "rest = ts1" by auto
      with IH [OF a] ne have "parse_expr fuel ArithExpr (ts @ ex) = Inr (node, ts1 @ ex)" by simp
      then show ?thesis using Expr False eq ne by (simp add: is_op_append)
    qed
  next
    case ArithExpr
    from run ArithExpr obtain node ts1 where
      a: "parse_expr fuel Term ts = Inr (node, ts1)" and
      b: "parse_expr fuel (ArithLoop node) ts1 = Inr (n, rest)"
      by (auto split: sum.splits)
    from b ne have "ts1 \<noteq> []" using parse_expr_Nil by blast
    from IH [OF a this] IH [OF b ne] show ?thesis using ArithExpr by simp
  next
    case (ArithLoop node)
    show ?thesis
    proof (cases "is_op ts [''+'', ''-'']")
      case True
      with run ArithLoop obtain op_tok ts1 rhs ts2 where
        ts: "ts = op_tok # ts1" and
        a: "parse_expr fuel Term ts1 = Inr (rhs, ts2)" and
        b: "parse_expr fuel (ArithLoop (ASTNode ''arith_expr'' (Some (tvalue op_tok)) [Some node, Some rhs])) ts2
              = Inr (n, rest)"
        by (auto simp: eat_Inr split: sum.splits)
      from b ne have "ts2 \<noteq> []" using parse_expr_Nil by blast
      from IH [OF a this] IH [OF b ne] show ?thesis
        using ArithLoop True ts by (simp add: is_op_append eat_def)
    next
      case False
      with run ArithLoop have "n = node" "rest = ts" by auto
      with ne show ?thesis using ArithLoop False by (simp add: is_op_append)
    qed
  next
    case Term
    from run Term obtain node ts1 where
      a: "parse_expr fuel Factor ts = Inr (node, ts1)" and
      b: "parse_expr fuel (TermLoop node) ts1 = Inr (n, rest)"
      by (auto split: sum.splits)
    from b ne have "ts1 \<noteq> []" using parse_expr_Nil by blast
    from IH [OF a this] IH [OF b ne] show ?thesis using Term by simp
  next
    case (TermLoop node)
    show ?thesis
    proof (cases "is_op ts [''*'', ''/'', ''%'']")
      case True
      with run TermLoop obtain op_tok ts1 rhs ts2 where
        ts: "ts = op_tok # ts1" and
        a: "parse_expr fuel Factor ts1 = Inr (rhs, ts2)" and
        b: "parse_expr fuel (TermLoop (ASTNode ''term'' (Some (tvalue op_tok)) [Some node, Some rhs])) ts2
              = Inr (n, rest)"
        by (auto simp: eat_Inr split: sum.splits)
      from b ne have "ts2 \<noteq> []" using parse_expr_Nil by blast
      from IH [OF a this] IH [OF b ne] show ?thesis
        using TermLoop True ts by (simp add: is_op_append eat_def)
    next
      case False
      with run TermLoop have "n = node" "rest = ts" by auto
      with ne show ?thesis using TermLoop False by (simp add: is_op_append)
    qed
  next
    case Factor
    from run Factor have "ts \<noteq> []" by (auto simp: cur_type_def)
    then obtain t ts0 where ts: "ts = t # ts0" by (cases ts) auto
    show ?thesis
    proof (cases "ttype t = LPAREN")
      case True
      with run Factor ts obtain t2 where
        a: "parse_expr fuel Expr ts0 = Inr (n, t2 # rest)" and t2: "ttype t2 = RPAREN"
        by (auto simp: eat_Inr split: sum.splits if_splits)
      from IH [OF a] have "parse_expr fuel Expr (ts0 @ ex) = Inr (n, t2 # rest @ ex)" by simp
      then show ?thesis using Factor True ts t2 by (simp add: eat_def)
    next
      case False
      with run Factor ts show ?thesis
        by (auto simp: eat_Inr eat_def split: sum.splits if_splits)
    qed
  qed
qed

lemma parse_expr_append_Cons:
  "parse_expr fuel r ts = Inr (n, t # rest) \<Longrightarrow>
   parse_expr fuel r (ts @ ex) = Inr (n, t # rest @ ex)"
  using parse_expr_append [of fuel r ts n "t # rest" ex] by simp

lemma var_decl_append:
  assumes "var_decl fuel ts = Inr (n, rest)"
  shows "var_decl fuel (ts @ ex) = Inr (n, rest @ ex)"
proof -
  from assms obtain ty id_tok ts2 where
    ts: "ts = ty # id_tok # ts2" and ty: "ttype ty = INT_KW" and id: "ttype id_tok = ID"
    by (auto simp: var_decl_def type_spec_Inr eat_Inr split: sum.splits prod.splits)
  show ?thesis
  proof (cases "is_op ts2 [''='']")
    case True
    then obtain op_tok ts3 where ts2: "ts2 = op_tok # ts3" and op: "ttype op_tok = OP"
      by (cases ts2) auto
    with assms ts ty id True obtain init semi where
      e: "parse_expr fuel Expr ts3 = Inr (init, semi # rest)" and semi: "ttype semi = SEMI" and
      n: "n = add_child (ASTNode ''var_decl'' None
             [Some (ASTNode ''type'' (Some (tvalue ty)) []),
              Some (ASTNode ''id'' (Some (tvalue id_tok)) [])]) (Some init)"
      by (auto simp: var_decl_def type_spec_def eat_def Let_def split: sum.splits if_splits list.splits)
    from parse_expr_append_Cons [OF e] show ?thesis
      using ts ty id True ts2 op semi n
      by (simp add: var_decl_def type_spec_def eat_def Let_def)
  next
    case False
    with assms ts ty id obtain semi where ts2: "ts2 = semi # rest" and semi: "ttype semi = SEMI"
      and n: "n = ASTNode ''var_decl'' None
             [Some (ASTNode ''type'' (Some (tvalue ty)) []),
              Some (ASTNode ''id'' (Some (tvalue id_tok)) [])]"
      by (auto simp: var_decl_def type_spec_def eat_def Let_def split: sum.splits if_splits list.splits)
    with False show ?thesis
      using ts ty id by (simp add: var_decl_def type_spec_def eat_def Let_def)
  qed
qed

lemma assign_expr_append:
  assumes "assign_expr fuel ts = Inr (n, rest)" and "rest \<noteq> []"
  shows "assign_expr fuel (ts @ ex) = Inr (n, rest @ ex)"
proof -
  from assms(1) obtain id_tok op_tok ts2 rhs where
    ts: "ts = id_tok # op_tok # ts2" and id: "ttype id_tok = ID" and op: "ttype op_tok = OP" and
    e: "parse_expr fuel Expr ts2 = Inr (rhs, rest)" and
    n: "n = ASTNode ''assign'' None [Some (ASTNode ''id'' (Some (tvalue id_tok)) []), Some rhs]"
    by (auto simp: assign_expr_def eat_Inr split: sum.splits prod.splits)
  from parse_expr_append [OF e assms(2)] show ?thesis
    using ts id op n by (simp add: assign_expr_def eat_def)
qed

lemma assign_stmt_append:
  assumes "assign_stmt fuel ts = Inr (n, rest)"
  shows "assign_stmt fuel (ts @ ex) = Inr (n, rest @ ex)"
proof -
  from assms obtain semi where
    e: "assign_expr fuel ts = Inr (n, semi # rest)" and semi: "ttype semi = SEMI"
    by (auto simp: assign_stmt_def eat_Inr split: sum.splits prod.splits)
  from assign_expr_append [OF e] show ?thesis
    using semi by (simp add: assign_stmt_def eat_def)
qed

lemma return_stmt_append:
  assumes "return_stmt fuel ts = Inr (n, rest)"
  shows "return_stmt fuel (ts @ ex) = Inr (n, rest @ ex)"
proof -
  from assms obtain ret ts1 e semi where
    ts: "ts = ret # ts1" and ret: "ttype ret = RETURN" and
    e: "parse_expr fuel Expr ts1 = Inr (e, semi # rest)" and semi: "ttype semi = SEMI" and
    n: "n = ASTNode ''return_stmt'' None [Some e]"
    by (auto simp: return_stmt_def eat_Inr split: sum.splits prod.splits)
  from parse_expr_append_Cons [OF e] show ?thesis
    using ts ret semi n by (simp add: return_stmt_def eat_def)
qed

lemma generic_stmt_append:
  assumes "generic_stmt ts = Inr (n, rest)" and "rest \<noteq> []"
  shows "generic_stmt (ts @ ex) = Inr (n, rest @ ex)"
proof -
  define post where "post = dropWhile in_statement ts"
  from assms have n: "n = ASTNode ''stmt'' (Some (strip (join '' '' (map tvalue (upto_semicolon ts))))) []"
    and rest: "rest = after_semicolon ts"
    by (simp_all add: generic_stmt_eq)
  have "post \<noteq> []"
  proof
    assume "post = []"
    then have "after_semicolon ts = []"
      unfolding after_semicolon_def post_def [symmetric] by simp
    with rest assms(2) show False by simp
  qed
  then obtain t post' where post: "post = t # post'" by (cases post) auto
  then have t: "t \<in> set ts" "\<not> in_statement t"
    using set_dropWhileD [of t in_statement ts] hd_dropWhile [of in_statement ts]
    by (auto simp: post_def)
  then have "takeWhile in_statement (ts @ ex) = takeWhile in_statement ts"
    and "dropWhile in_statement (ts @ ex) = dropWhile in_statement ts @ ex"
    by (simp_all add: takeWhile_append1 dropWhile_append1)
  then have "upto_semicolon (ts @ ex) = upto_semicolon ts"
    and "after_semicolon (ts @ ex) = after_semicolon ts @ ex"
    using post by (simp_all add: upto_semicolon_def after_semicolon_def post_def [symmetric])
  with n rest show ?thesis by (simp add: generic_stmt_eq)
qed

definition for_init :: "nat \<Rightarrow> token list \<Rightarrow> error + (ASTNode option \<times> token list)" where
  "for_init fuel ts =
     (if cur_type ts = INT_KW then map_sum id (map_prod Some id) (var_decl fuel ts)
      else if cur_type ts = ID then map_sum id (map_prod Some id) (assign_stmt fuel ts)
      else map_sum id (\<lambda>(_, r). (None, r)) (eat SEMI ts))"

definition for_cond :: "nat \<Rightarrow> token list \<Rightarrow> error + (ASTNode option \<times> token list)" where
  "for_cond fuel ts =
     (if cur_type ts \<noteq> SEMI
      then (case expr fuel ts of
              Inl e \<Rightarrow> Inl e
            | Inr (c, r) \<Rightarrow> map_sum id (\<lambda>(_, r'). (Some c, r')) (eat SEMI r))
      else map_sum id (\<lambda>(_, r). (None, r)) (eat SEMI ts))"

definition for_upd :: "nat \<Rightarrow> token list \<Rightarrow> error + (ASTNode option \<times> token list)" where
  "for_upd fuel ts =
     (if cur_type ts = ID then map_sum id (map_prod Some id) (assign_expr fuel ts)
      else Inr (None, ts))"

lemma for_header_eq:
  "for_header fuel ts =
     (case eat FOR ts of Inl e \<Rightarrow> Inl e | Inr (_, ts1) \<Rightarrow>
     (case eat LPAREN ts1 of Inl e \<Rightarrow> Inl e | Inr (_, ts2) \<Rightarrow>
     (case for_init fuel ts2 of Inl e \<Rightarrow> Inl e | Inr (init_node, ts3) \<Rightarrow>
     (case for_cond fuel ts3 of Inl e \<Rightarrow> Inl e | Inr (cond_node, ts4) \<Rightarrow>
     (case for_upd fuel ts4 of Inl e \<Rightarrow> Inl e | Inr (upd_node, ts5) \<Rightarrow>
     (case eat RPAREN ts5 of Inl e \<Rightarrow> Inl e | Inr (_, ts6) \<Rightarrow>
        Inr (ASTNode ''for'' None [init_node, cond_node, upd_node], ts6)))))))"
  by (simp only: for_header_def for_init_def for_cond_def for_upd_def)

lemma map_sum_Inr: "map_sum f g x = Inr y \<longleftrightarrow> (\<exists>z. x = Inr z \<and> y = g z)"
  by (cases x) auto

lemma for_init_append:
  assumes "for_init fuel ts = Inr (n, rest)"
  shows "for_init fuel (ts @ ex) = Inr (n, rest @ ex)"
proof -
  from assms have "ts \<noteq> []"
    by (auto simp: for_init_def cur_type_def eat_def)
  then have ct: "cur_type (ts @ ex) = cur_type ts" by (simp add: cur_type_append)
  consider (decl) "cur_type ts = INT_KW" | (asg) "cur_type ts \<noteq> INT_KW" "cur_type ts = ID"
    | (none) "cur_type ts \<noteq> INT_KW" "cur_type ts \<noteq> ID" by blast
  then show ?thesis
  proof cases
    case decl
    with assms obtain d where "var_decl fuel ts = Inr (d, rest)" "n = Some d"
      by (auto simp: for_init_def map_sum_Inr)
    with var_decl_append [of fuel ts d rest ex] decl ct show ?thesis
      by (simp add: for_init_def)
  next
    case asg
    with assms obtain d where "assign_stmt fuel ts = Inr (d, rest)" "n = Some d"
      by (auto simp: for_init_def map_sum_Inr)
    with assign_stmt_append [of fuel ts d rest ex] asg ct show ?thesis
      by (simp add: for_init_def)
  next
    case none
    with assms obtain semi where "ts = semi # rest" "ttype semi = SEMI" "n = None"
      by (auto simp: for_init_def map_sum_Inr eat_Inr)
    with none show ?thesis
      by (simp add: for_init_def eat_def)
  qed
qed

lemma for_cond_append:
  assumes "for_cond fuel ts = Inr (n, rest)"
  shows "for_cond fuel (ts @ ex) = Inr (n, rest @ ex)"
proof -
  from assms have "ts \<noteq> []"
    using parse_expr_Nil [of fuel Expr]
    by (auto simp: for_cond_def cur_type_def eat_def split: sum.splits)
  then have ct: "cur_type (ts @ ex) = cur_type ts" by (simp add: cur_type_append)
  show ?thesis
  proof (cases "cur_type ts = SEMI")
    case True
    with assms obtain semi where "ts = semi # rest" "ttype semi = SEMI" "n = None"
      by (auto simp: for_cond_def map_sum_Inr eat_Inr)
    then show ?thesis
      by (simp add: for_cond_def eat_def)
  next
    case False
    with assms obtain c semi where
      e: "parse_expr fuel Expr ts = Inr (c, semi # rest)" and "ttype semi = SEMI" "n = Some c"
      by (auto simp: for_cond_def map_sum_Inr eat_Inr split: sum.splits)
    with parse_expr_append_Cons [OF e, of ex] False ct show ?thesis
      by (simp add: for_cond_def eat_def)
  qed
qed

lemma for_upd_append:
  assumes "for_upd fuel ts = Inr (n, rest)" and "rest \<noteq> []"
  shows "for_upd fuel (ts @ ex) = Inr (n, rest @ ex)"
proof -
  from assms have "ts \<noteq> []"
    by (auto simp: for_upd_def cur_type_def split: if_splits)
  then have ct: "cur_type (ts @ ex) = cur_type ts" by (simp add: cur_type_append)
  show ?thesis
  proof (cases "cur_type ts = ID")
    case True
    with assms obtain u where "assign_expr fuel ts = Inr (u, rest)" "n = Some u"
      by (auto simp: for_upd_def map_sum_Inr)
    with assign_expr_append [of fuel ts u rest ex] assms(2) True ct show ?thesis
      by (simp add: for_upd_def)
  next
    case False
    with assms ct show ?thesis by (simp add: for_upd_def)
  qed
qed

lemma for_header_append:
  assumes "for_header fuel ts = Inr (n, rest)"
  shows "for_header fuel (ts @ ex) = Inr (n, rest @ ex)"
proof -
  from assms obtain f lp ts2 init_node ts3 cond_node ts4 upd_node rp where
    ts: "ts = f # lp # ts2" "ttype f = FOR" "ttype lp = LPAREN" and
    i: "for_init fuel ts2 = Inr (init_node, ts3)" and
    c: "for_cond fuel ts3 = Inr (cond_node, ts4)" and
    u: "for_upd fuel ts4 = Inr (upd_node, rp # rest)" and
    rp: "ttype rp = RPAREN" and
    n: "n = ASTNode ''for'' None [init_node, cond_node, upd_node]"
    by (auto simp: for_header_eq eat_Inr split: sum.splits prod.splits)
  from for_init_append [OF i, of ex] for_cond_append [OF c, of ex] for_upd_append [OF u, of ex]
  show ?thesis using ts rp n by (simp add: for_header_eq eat_def)
qed

lemma parse_stmt_Nil:
  "parse_stmt fuel r [] = Inr (n, rest) \<Longrightarrow> rest = [] \<and> (\<exists>node. r = StmtLoop node)"
  by (cases fuel; cases r)
     (auto simp: eat_def cur_type_def for_header_eq split: sum.splits if_splits)

lemma parse_stmt_append:
  "parse_stmt fuel r ts = Inr (n, rest) \<Longrightarrow> rest \<noteq> [] \<or> r = CompoundStmt \<Longrightarrow>
   parse_stmt fuel r (ts @ ex) = Inr (n, rest @ ex)"
proof (induction fuel arbitrary: r ts n rest)
  case 0
  then show ?case by simp
next
  case (Suc fuel)
  note IH = Suc.IH and run = Suc.prems(1) and ne = Suc.prems(2)
  have body:
    "(if cur_type (ts @ ex) = LBRACE then parse_stmt fuel CompoundStmt (ts @ ex)
      else parse_stmt fuel Stmt (ts @ ex)) = Inr (n, rest @ ex)"
    if b: "(if cur_type ts = LBRACE then parse_stmt fuel CompoundStmt ts
           else parse_stmt fuel Stmt ts) = Inr (n, rest)" and "rest \<noteq> []"
    for ts n rest
  proof -
    from b have "ts \<noteq> []" using parse_stmt_Nil [of fuel _ n rest] by (auto split: if_splits)
    then have "cur_type (ts @ ex) = cur_type ts" by (simp add: cur_type_append)
    with b that(2) IH [of _ ts n rest] show ?thesis by (auto split: if_splits)
  qed
  show ?case
  proof (cases r)
    case CompoundStmt
    with run obtain lb ts1 rb where
      ts: "ts = lb # ts1" "ttype lb = LBRACE" and
      l: "parse_stmt fuel (StmtLoop (ASTNode ''compound_stmt'' None [])) ts1 = Inr (n, rb # rest)" and
      rb: "ttype rb = RBRACE"
      by (auto simp: eat_Inr split: sum.splits)
    from IH [OF l] have
      "parse_stmt fuel (StmtLoop (ASTNode ''compound_stmt'' None [])) (ts1 @ ex) = Inr (n, rb # rest @ ex)"
      by simp
    then show ?thesis using CompoundStmt ts rb by (simp add: eat_def)
  next
    case (StmtLoop node)
    with ne have ne: "rest \<noteq> []" by simp
    show ?thesis
    proof (cases "cur_type ts \<in> {INT_KW, ID, IF, RETURN, WHILE, FOR, DO}")
      case True
      then have "ts \<noteq> []" by (auto simp: cur_type_def)
      then have ct: "cur_type (ts @ ex) = cur_type ts" by (simp add: cur_type_append)
      from run StmtLoop True obtain child ts1 where
        a: "parse_stmt fuel Stmt ts = Inr (child, ts1)" and
        b: "parse_stmt fuel (StmtLoop (add_child node (Some child))) ts1 = Inr (n, rest)"
        by (auto split: sum.splits)
      from b ne have "ts1 \<noteq> []" using parse_stmt_Nil by blast
      with IH [OF a] IH [OF b] ne show ?thesis using StmtLoop True ct by simp
    next
      case False
      with run StmtLoop have eq: "n = node" "rest = ts" by auto
      with ne have "cur_type (ts @ ex) = cur_type ts" by (simp add: cur_type_append)
      with False eq show ?thesis using StmtLoop by simp
    qed
  next
    case Stmt
    with ne have ne: "rest \<noteq> []" by simp
    from run Stmt have "ts \<noteq> []" by (auto simp: cur_type_def)
    then obtain t ts0 where ts: "ts = t # ts0" by (cases ts) auto
    consider (decl) "ttype t = INT_KW" | (ident) "ttype t = ID" | (ifs) "ttype t = IF"
      | (ret) "ttype t = RETURN" | (whl) "ttype t = WHILE" | (forl) "ttype t = FOR"
      | (dow) "ttype t = DO"
      | (other) "ttype t \<notin> {INT_KW, ID, IF, RETURN, WHILE, FOR, DO}"
      by blast
    then show ?thesis
    proof cases
      case decl
      with run Stmt ts var_decl_append [of fuel ts n rest ex] show ?thesis by simp
    next
      case ident
      show ?thesis
      proof (cases "is_op ts0 [''='']")
        case True
        then have "is_op (ts0 @ ex) [''='']" by (cases ts0) auto
        with True ident run Stmt ts assign_stmt_append [of fuel ts n rest ex] show ?thesis by simp
      next
        case False
        with ident run Stmt ts have g: "generic_stmt ts = Inr (n, rest)" by simp
        have "ts0 \<noteq> []"
        proof
          assume "ts0 = []"
          with g ts ident have "rest = []"
            by (simp add: generic_stmt_eq after_semicolon_def in_statement_def cur_type_def)
          with ne show False by simp
        qed
        with False have "\<not> is_op (ts0 @ ex) [''='']" by (simp add: is_op_append)
        with ident ts Stmt generic_stmt_append [OF g ne, of ex] show ?thesis by simp
      qed
    next
      case ifs
      with run Stmt ts IH [of IfStmt ts n rest] ne show ?thesis by simp
    next
      case ret
      with run Stmt ts return_stmt_append [of fuel ts n rest ex] show ?thesis by simp
    next
      case whl
      with run Stmt ts IH [of WhileStmt ts n rest] ne show ?thesis by simp
    next
      case forl
      with run Stmt ts IH [of ForStmt ts n rest] ne show ?thesis by simp
    next
      case dow
      with run Stmt ts IH [of DoWhileStmt ts n rest] ne show ?thesis by simp
    next
      case other
      with run Stmt ts show ?thesis by auto
    qed
  next
    case IfStmt
    with ne have ne: "rest \<noteq> []" by simp
    from run IfStmt obtain i lp ts2 cond rp ts4 then_node ts5 where
      ts: "ts = i # lp # ts2" "ttype i = IF" "ttype lp = LPAREN" and
      e: "parse_expr fuel Expr ts2 = Inr (cond, rp # ts4)" and rp: "ttype rp = RPAREN" and
      t: "(if cur_type ts4 = LBRACE then parse_stmt fuel CompoundStmt ts4
           else parse_stmt fuel Stmt ts4) = Inr (then_node, ts5)" and
      rest: "(if cur_type ts5 = ELSE
              then (case eat ELSE ts5 of
                      Inl e \<Rightarrow> Inl e
                    | Inr (_, ts6) \<Rightarrow>
                        (case (if cur_type ts6 = LBRACE then parse_stmt fuel CompoundStmt ts6
                               else parse_stmt fuel Stmt ts6) of
                           Inl e \<Rightarrow> Inl e
                         | Inr (else_node, ts7) \<Rightarrow>
                             Inr (ASTNode ''if_stmt'' None [Some cond, Some then_node, Some else_node], ts7)))
              else Inr (ASTNode ''if_stmt'' None [Some cond, Some then_node], ts5)) = Inr (n, rest)"
      by (auto simp: eat_Inr split: sum.splits)
    have ts5: "ts5 \<noteq> []" using rest ne by (auto simp: cur_type_def split: if_splits)
    note e' = parse_expr_append_Cons [OF e, of ex]
    note t' = body [OF t ts5]
    show ?thesis
    proof (cases "cur_type ts5 = ELSE")
      case True
      with rest obtain el ts6 else_node where
        ts5': "ts5 = el # ts6" "ttype el = ELSE" and
        b: "(if cur_type ts6 = LBRACE then parse_stmt fuel CompoundStmt ts6
             else parse_stmt fuel Stmt ts6) = Inr (else_node, rest)" and
        n: "n = ASTNode ''if_stmt'' None [Some cond, Some then_node, Some else_node]"
        by (auto simp: eat_Inr split: sum.splits)
      from body [OF b ne] e' t' show ?thesis
        using IfStmt ts rp ts5' n by (simp add: eat_def)
    next
      case False
      with rest have "n = ASTNode ''if_stmt'' None [Some cond, Some then_node]" "rest = ts5" by auto
      with e' t' False ts5 show ?thesis
        using IfStmt ts rp by (simp add: eat_def cur_type_append)
    qed
  next
    case WhileStmt
    with ne have ne: "rest \<noteq> []" by simp
    from run WhileStmt obtain w lp ts2 cond rp ts4 body_node where
      ts: "ts = w # lp # ts2" "ttype w = WHILE" "ttype lp = LPAREN" and
      e: "parse_expr fuel Expr ts2 = Inr (cond, rp # ts4)" and rp: "ttype rp = RPAREN" and
      b: "(if cur_type ts4 = LBRACE then parse_stmt fuel CompoundStmt ts4
           else parse_stmt fuel Stmt ts4) = Inr (body_node, rest)" and
      n: "n = ASTNode ''while'' None [Some cond, Some body_node]"
      by (auto simp: eat_Inr split: sum.splits)
    from parse_expr_append_Cons [OF e, of ex] body [OF b ne] show ?thesis
      using WhileStmt ts rp n by (simp add: eat_def)
  next
    case ForStmt
    with ne have ne: "rest \<noteq> []" by simp
    from run ForStmt obtain node ts1 body_node where
      h: "for_header fuel ts = Inr (node, ts1)" and
      b: "(if cur_type ts1 = LBRACE then parse_stmt fuel CompoundStmt ts1
           else parse_stmt fuel Stmt ts1) = Inr (body_node, rest)" and
      n: "n = add_child node (Some body_node)"
      by (auto split: sum.splits)
    from for_header_append [OF h, of ex] body [OF b ne] show ?thesis
      using ForStmt n by simp
  next
    case DoWhileStmt
    from run DoWhileStmt obtain d ts1 body_node w lp ts4 cond rp semi where
      ts: "ts = d # ts1" "ttype d = DO" and
      b: "(if cur_type ts1 = LBRACE then parse_stmt fuel CompoundStmt ts1
           else parse_stmt fuel Stmt ts1) = Inr (body_node, w # lp # ts4)" and
      w: "ttype w = WHILE" "ttype lp = LPAREN" and
      e: "parse_expr fuel Expr ts4 = Inr (cond, rp # semi # rest)" and
      rp: "ttype rp = RPAREN" "ttype semi = SEMI" and
      n: "n = ASTNode ''do_while'' None [Some body_node, Some cond]"
      by (auto simp: eat_Inr split: sum.splits)
    from body [OF b] parse_expr_append_Cons [OF e, of ex] show ?thesis
      using DoWhileStmt ts w rp n by (simp add: eat_def)
  qed
qed

text \<open>
  Claim C8. \<open>parse\<close> returns what \<open>program\<close> built and drops the tokens that were left,
  without looking at them: when a token list parses, the same list followed by any
  further tokens parses to the same tree, which has one function under the program
  node. So \<^verbatim>\<open>int main() { return 0; }\<close> followed by a second function parses to the tree
  of the first function alone.
\<close>

theorem parse_ignores_trailing_tokens:
  assumes "parse fuel ts = Inr ast"
  shows "parse fuel (ts @ extra) = Inr ast
    \<and> (\<exists>ty name body. ast = ASTNode ''program'' None [Some (ASTNode ''function'' None [ty, name, body])])"
proof -
  from assms obtain f rest where p: "program fuel ts = Inr (ASTNode ''program'' None [Some f], rest)"
    and ast: "ast = ASTNode ''program'' None [Some f]"
    by (auto simp: parse_def program_def map_sum_Inr split: sum.splits)
  then obtain ty main_tok lp rp ts4 body where
    ts: "ts = ty # main_tok # lp # rp # ts4" and
    tys: "ttype ty = INT_KW" "ttype main_tok = MAIN" "ttype lp = LPAREN" "ttype rp = RPAREN" and
    c: "parse_stmt fuel CompoundStmt ts4 = Inr (body, rest)" and
    f: "f = ASTNode ''function'' None
          [Some (ASTNode ''type'' (Some (tvalue ty)) []),
           Some (ASTNode ''main'' (Some (tvalue main_tok)) []), Some body]"
    by (auto simp: program_def function_rule_def type_spec_Inr eat_Inr split: sum.splits)
  from parse_stmt_append [OF c, of extra] have
    "parse_stmt fuel CompoundStmt (ts4 @ extra) = Inr (body, rest @ extra)" by simp
  with ts tys f ast have "parse fuel (ts @ extra) = Inr ast"
    by (simp add: parse_def program_def function_rule_def type_spec_def eat_def)
  with ast f show ?thesis by blast
qed

theorem parse_ignores_trailing_tokens_witness:
  "parse 30 return_program = Inr return_ast
   \<and> parse 30 (return_program @ second_function) = Inr return_ast"
proof -
  have "parse 30 return_program = Inr return_ast" by code_simp
  with parse_ignores_trailing_tokens [of 30 return_program return_ast second_function]
  show ?thesis by blast
qed

section \<open>Keywords and identifiers in the lexer\<close>

lemma starts_with_Some: "starts_with lit s = Some after \<longleftrightarrow> s = lit @ after"
  by (induction lit s rule: starts_with.induct) auto

lemma starts_with_append [simp]: "starts_with lit (lit @ rest) = Some rest"
  by (simp add: starts_with_Some)
















end
